(* ===== verification/Prelude.thy ===== *)
theory Prelude
  imports Complex_Main "HOL-Library.AList" "HOL-Library.Multiset" "HOL-Library.Signed_Division"
    "HOL-Library.Log_Nat" "HOL-Library.Char_ord" "HOL-Library.List_Lexorder"
begin

text \<open>
  Shared ground of the development: Go's 64-bit integers, instants and durations of the package
  \<open>time\<close>, \<open>float64\<close> values, and the generic lemmas on lists, maps and multisets that the component
  theories share. The collections \<open>i64_simps\<close> and \<open>time_simps\<close> hold the rewrite rules that the
  component proofs pass to \<open>simp\<close>.
\<close>

named_theorems i64_simps
named_theorems time_simps

section \<open>Sixty-four bit integers\<close>

text \<open>
  Go's \<open>int\<close> and \<open>int64\<close> (on a 64-bit platform) are the integers between \<open>- 2 ^ 63\<close> and
  \<open>2 ^ 63 - 1\<close>. A value is an \<open>int\<close>, and every arithmetic operation whose result can leave the
  range is followed by \<open>i64\<close>, the wrap-around of two's complement. The truncating division and
  remainder of Go are \<open>sdiv\<close> and \<open>smod\<close> of the library.
\<close>

definition i64 :: "int \<Rightarrow> int" where
  "i64 x = (x + 2 ^ 63) mod 2 ^ 64 - 2 ^ 63"

definition in64 :: "int \<Rightarrow> bool" where
  "in64 x \<longleftrightarrow> - (2 ^ 63) \<le> x \<and> x < 2 ^ 63"

lemma i64_in64 [simp]: "in64 (i64 x)"
  by (simp add: i64_def in64_def)

lemma i64_id [i64_simps]: "in64 x \<Longrightarrow> i64 x = x"
  by (simp add: i64_def in64_def)

lemma i64_small [i64_simps]: "\<bar>x\<bar> < 2 ^ 63 \<Longrightarrow> i64 x = x"
  by (simp add: i64_def)

lemma i64_nonneg_id: "0 \<le> x \<Longrightarrow> x < 2 ^ 63 \<Longrightarrow> i64 x = x"
  by (simp add: i64_def)

lemma i64_0 [simp]: "i64 0 = 0" and i64_1 [simp]: "i64 1 = 1"
  by (simp_all add: i64_def)

lemma i64_i64 [simp]: "i64 (i64 x) = i64 x"
  by (simp add: i64_def)

lemma i64_add_left [simp]: "i64 (i64 x + y) = i64 (x + y)"
proof -
  have "i64 x + y + 2 ^ 63 = (x + 2 ^ 63) mod 2 ^ 64 + y"
    by (simp add: i64_def)
  then have "i64 (i64 x + y) = ((x + 2 ^ 63) mod 2 ^ 64 + y) mod 2 ^ 64 - 2 ^ 63"
    by (simp add: i64_def)
  also have "\<dots> = (x + 2 ^ 63 + y) mod 2 ^ 64 - 2 ^ 63"
    by (simp only: mod_add_left_eq)
  finally show ?thesis by (simp add: i64_def algebra_simps)
qed

lemma i64_add_right [simp]: "i64 (x + i64 y) = i64 (x + y)"
  using i64_add_left [of y x] by (simp add: add.commute)

lemma i64_eq_iff: "i64 x = i64 y \<longleftrightarrow> x mod 2 ^ 64 = y mod 2 ^ 64"
proof -
  have "i64 x = i64 y \<longleftrightarrow> (x + 2 ^ 63) mod 2 ^ 64 = (y + 2 ^ 63) mod 2 ^ 64"
    by (simp add: i64_def)
  also have "\<dots> \<longleftrightarrow> x mod 2 ^ 64 = y mod 2 ^ 64"
    by (simp add: mod_eq_dvd_iff)
  finally show ?thesis .
qed

lemma i64_mod: "i64 x mod 2 ^ 64 = x mod 2 ^ 64"
  using i64_eq_iff [of "i64 x" x] by simp

lemma i64_diff_right [simp]: "i64 (x - i64 y) = i64 (x - y)"
proof -
  have "(x - i64 y) mod 2 ^ 64 = (x - i64 y mod 2 ^ 64) mod 2 ^ 64"
    by (rule mod_diff_right_eq [symmetric])
  also have "\<dots> = (x - y) mod 2 ^ 64"
    unfolding i64_mod by (rule mod_diff_right_eq)
  finally show ?thesis unfolding i64_eq_iff .
qed

lemma i64_diff_left [simp]: "i64 (i64 x - y) = i64 (x - y)"
  using i64_add_left [of x "- y"] by simp

lemma i64_mult_left [simp]: "i64 (i64 x * y) = i64 (x * y)"
proof -
  have "(i64 x * y) mod 2 ^ 64 = (i64 x mod 2 ^ 64 * y) mod 2 ^ 64"
    by (rule mod_mult_left_eq [symmetric])
  also have "\<dots> = (x * y) mod 2 ^ 64"
    unfolding i64_mod by (rule mod_mult_left_eq)
  finally show ?thesis unfolding i64_eq_iff .
qed

text \<open>The accumulation loop \<open>total += v\<close> over a sequence, and what it computes.\<close>

definition i64_sum :: "int list \<Rightarrow> int" where
  "i64_sum vs = foldl (\<lambda>total v. i64 (total + v)) 0 vs"

lemma foldl_i64: "foldl (\<lambda>total v. i64 (total + v)) (i64 a) vs = i64 (a + sum_list vs)"
  by (induction vs arbitrary: a) (simp_all add: add.assoc)

lemma i64_sum_eq: "i64_sum vs = i64 (sum_list vs)"
  using foldl_i64 [of 0 vs] by (simp add: i64_sum_def)

lemma i64_add_cong: "i64 a = i64 b \<Longrightarrow> i64 c = i64 d \<Longrightarrow> i64 (a + c) = i64 (b + d)"
  by (metis i64_add_left i64_add_right)

lemma i64_sum_cong:
  assumes "finite A" and "\<And>x. x \<in> A \<Longrightarrow> i64 (f x) = i64 (g x)"
  shows "i64 (sum f A) = i64 (sum g A)"
  using assms
proof (induction A)
  case empty
  then show ?case by simp
next
  case (insert x A)
  then have "i64 (f x + sum f A) = i64 (g x + sum g A)"
    by (intro i64_add_cong) auto
  with insert(1,2) show ?case by simp
qed

section \<open>Instants and durations\<close>

text \<open>
  A \<open>time.Time\<close> is an instant, represented by the number of nanoseconds since the Unix epoch. Go
  keeps far more than 64 bits of it, so it is an unbounded \<open>int\<close>; \<open>UnixNano\<close> is the 64-bit reading
  and wraps around outside the years 1678 to 2262. A \<open>time.Duration\<close> is an \<open>int64\<close> number of
  nanoseconds. \<open>Sub\<close> saturates; \<open>Add\<close>, \<open>Before\<close> and \<open>After\<close> are exact on the instant: \<open>+\<close> and \<open><\<close>.
\<close>

type_synonym time = int
type_synonym duration = int

definition unix_nano :: "time \<Rightarrow> int" where
  "unix_nano t = i64 t"

definition time_sub :: "time \<Rightarrow> time \<Rightarrow> duration" where
  "time_sub t u = max (- (2 ^ 63)) (min (2 ^ 63 - 1) (t - u))"

text \<open>\<open>time.Unix(sec, 0)\<close>, and \<open>Truncate\<close>, which counts from the zero time (1 January of year 1).\<close>

definition unix_sec :: "int \<Rightarrow> time" where
  "unix_sec s = s * 1000000000"

definition zero_time :: time where
  "zero_time = - 62135596800 * 1000000000"

definition time_truncate :: "time \<Rightarrow> duration \<Rightarrow> time" where
  "time_truncate t d = (if d \<le> 0 then t else t - (t - zero_time) mod d)"

lemma unix_nano_id [time_simps]: "in64 t \<Longrightarrow> unix_nano t = t"
  by (simp add: unix_nano_def i64_id)

lemma time_truncate_bounds: "0 < d \<Longrightarrow> time_truncate t d \<le> t \<and> t < time_truncate t d + d"
  using pos_mod_bound [of d "t - zero_time"] pos_mod_sign [of d "t - zero_time"]
  by (simp add: time_truncate_def)

lemma time_sub_le_iff [time_simps]:
  "- (2 ^ 63) \<le> d \<Longrightarrow> d < 2 ^ 63 - 1 \<Longrightarrow> time_sub t u \<le> d \<longleftrightarrow> t - u \<le> d"
  by (auto simp: time_sub_def)

section \<open>Truncating remainder\<close>

lemma smod_nonneg: "0 \<le> (a::int) \<Longrightarrow> 0 < b \<Longrightarrow> a smod b = a mod b"
  by (simp add: signed_modulo_int_def signed_divide_int_def sgn_if minus_div_mult_eq_mod)

lemma smod_neg:
  assumes "(a::int) < 0" and "0 < b"
  shows "a smod b = - ((- a) mod b)"
  using assms div_mult_mod_eq [of "- a" b]
  by (simp add: signed_modulo_int_def signed_divide_int_def sgn_if)

lemma sdiv_nonneg: "0 \<le> (a :: int) \<Longrightarrow> 0 < b \<Longrightarrow> a sdiv b = a div b"
  by (simp add: signed_divide_int_def sgn_if)

lemma zdiv_le_self:
  assumes "0 \<le> (a :: int)" and "0 < b"
  shows "0 \<le> a div b" and "a div b \<le> a"
proof -
  show "0 \<le> a div b" using assms by (simp add: pos_imp_zdiv_nonneg_iff)
  have "a div b \<le> a div 1" using assms by (intro zdiv_mono2) auto
  then show "a div b \<le> a" by simp
qed

section \<open>Lists and maps\<close>

lemma sum_list_snd_map_of:
  fixes al :: "('k \<times> int) list"
  assumes "distinct (map fst al)"
  shows "sum_list (map snd al) = (\<Sum>k \<in> set (map fst al). the (map_of al k))"
proof -
  have "map snd al = map (\<lambda>k. the (map_of al k)) (map fst al)"
    using assms by (auto simp: map_of_is_SomeI)
  then have "sum_list (map snd al) = sum_list (map (\<lambda>k. the (map_of al k)) (map fst al))"
    by (rule arg_cong)
  also have "\<dots> = (\<Sum>k \<in> set (map fst al). the (map_of al k))"
    using assms by (rule sum_list_distinct_conv_sum_set)
  finally show ?thesis .
qed

lemma nth_update_if: "xs[a := y] ! b = (if b = a \<and> a < length xs then y else xs ! b)"
  by (cases "a < length xs") (auto simp: nth_list_update list_update_beyond not_less)

lemma dom_map_of_fst: "set (map fst al) = dom (map_of al)"
  by (simp add: dom_map_of_conv_image_fst)

end
