(* ===== verification/Gods.thy ===== *)
theory Gods
  imports Prelude "HOL-Library.RBT"
begin

text \<open>
  The interface of the ordered map of \<open>github.com/emirpasic/gods/maps/treemap\<close>, a package the
  program imports and whose source is not part of the repository: its operations are a record, a
  parameter of every definition that uses the map, and its documented behaviour is the locale
  \<open>treemap\<close>. \<open>tm_iter\<close> is the sequence of pairs its iterator yields. The library's verified
  red-black trees satisfy the contract (\<open>rbt_api\<close>), as gods itself uses red-black trees.
\<close>

named_theorems treemap_simps

record ('k, 'v, 'm) treemap_api =
  tm_new :: 'm
  tm_get :: "'m \<Rightarrow> 'k \<Rightarrow> 'v option"
  tm_put :: "'m \<Rightarrow> 'k \<Rightarrow> 'v \<Rightarrow> 'm"
  tm_remove :: "'m \<Rightarrow> 'k \<Rightarrow> 'm"
  tm_iter :: "'m \<Rightarrow> ('k \<times> 'v) list"
  tm_size :: "'m \<Rightarrow> int"
  tm_max :: "'m \<Rightarrow> ('k \<times> 'v) option"

locale treemap =
  fixes T :: "('k::linorder, 'v, 'm) treemap_api"
  assumes get_new: "tm_get T (tm_new T) k = None"
    and get_put: "tm_get T (tm_put T m k v) j = (if j = k then Some v else tm_get T m j)"
    and get_remove: "tm_get T (tm_remove T m k) j = (if j = k then None else tm_get T m j)"
    and iter_get: "map_of (tm_iter T m) = tm_get T m"
    and iter_sorted: "sorted_wrt (<) (map fst (tm_iter T m))"
    and size_iter: "tm_size T m = int (length (tm_iter T m))"
    and max_iter: "tm_max T m = (if tm_iter T m = [] then None else Some (last (tm_iter T m)))"
begin

lemmas tm_laws [simp] = get_new get_put get_remove

lemma iter_distinct: "distinct (map fst (tm_iter T m))"
  using iter_sorted by (simp add: strict_sorted_iff)

lemma iter_keys: "set (map fst (tm_iter T m)) = dom (tm_get T m)"
  by (metis dom_map_of_fst iter_get)

lemma finite_dom: "finite (dom (tm_get T m))"
  using iter_keys [of m] by (metis List.finite_set)

lemma size_card: "tm_size T m = int (card (dom (tm_get T m)))"
  using iter_distinct [of m] iter_keys [of m] distinct_card [of "map fst (tm_iter T m)"]
  by (simp add: size_iter)

lemma size_0_iff: "tm_size T m \<le> 0 \<longleftrightarrow> tm_get T m = Map.empty"
  using finite_dom [of m] by (simp add: size_card)

end

section \<open>An instance: red-black trees\<close>

definition rbt_api :: "('k::linorder, 'v, ('k, 'v) RBT.rbt) treemap_api" where
  "rbt_api = \<lparr>tm_new = RBT.empty, tm_get = RBT.lookup, tm_put = (\<lambda>m k v. RBT.insert k v m),
     tm_remove = (\<lambda>m k. RBT.delete k m), tm_iter = RBT.entries,
     tm_size = (\<lambda>m. int (length (RBT.entries m))),
     tm_max = (\<lambda>m. if RBT.entries m = [] then None else Some (last (RBT.entries m)))\<rparr>"

lemma rbt_entries_strict: "sorted_wrt (<) (map fst (RBT.entries m))"
  by (simp add: strict_sorted_iff RBT.sorted_entries RBT.distinct_entries)

interpretation rbt: treemap rbt_api
  by unfold_locales (auto simp: rbt_api_def rbt_entries_strict)

section \<open>Bidirectional maps\<close>

text \<open>
  \<open>github.com/emirpasic/gods/maps/treebidimap\<close>: a map whose values are as unique as its keys. \<open>Put\<close>
  removes whatever entry has the key or the value. The iterator runs through the keys in order.
\<close>

record ('k, 'v, 'm) bidimap_api =
  bm_new :: 'm
  bm_get :: "'m \<Rightarrow> 'k \<Rightarrow> 'v option"
  bm_get_key :: "'m \<Rightarrow> 'v \<Rightarrow> 'k option"
  bm_put :: "'m \<Rightarrow> 'k \<Rightarrow> 'v \<Rightarrow> 'm"
  bm_remove :: "'m \<Rightarrow> 'k \<Rightarrow> 'm"
  bm_iter :: "'m \<Rightarrow> ('k \<times> 'v) list"
  bm_size :: "'m \<Rightarrow> int"

locale bidimap =
  fixes B :: "('k::linorder, 'v, 'm) bidimap_api"
  assumes bget_new: "bm_get B (bm_new B) k = None"
    and bget_put: "bm_get B (bm_put B m k v) j =
          (if j = k then Some v else if bm_get B m j = Some v then None else bm_get B m j)"
    and bget_remove: "bm_get B (bm_remove B m k) j = (if j = k then None else bm_get B m j)"
    and bget_key_Some: "bm_get_key B m v = Some k \<Longrightarrow> bm_get B m k = Some v"
    and bget_key_None: "bm_get_key B m v = None \<Longrightarrow> bm_get B m k \<noteq> Some v"
    and biter_get: "map_of (bm_iter B m) = bm_get B m"
    and biter_sorted: "sorted_wrt (<) (map fst (bm_iter B m))"
    and bsize_iter: "bm_size B m = int (length (bm_iter B m))"
begin

lemma bsize_card: "bm_size B m = int (card (dom (bm_get B m)))"
proof -
  have "distinct (map fst (bm_iter B m))" using biter_sorted by (simp add: strict_sorted_iff)
  then have "length (bm_iter B m) = card (set (map fst (bm_iter B m)))"
    using distinct_card by (metis length_map)
  also have "set (map fst (bm_iter B m)) = dom (bm_get B m)"
    by (metis dom_map_of_fst biter_get)
  finally show ?thesis by (simp add: bsize_iter)
qed

end

definition rbt_bidi :: "('k::linorder, 'v, ('k, 'v) RBT.rbt) bidimap_api" where
  "rbt_bidi = \<lparr>bm_new = RBT.empty, bm_get = RBT.lookup,
     bm_get_key = (\<lambda>m v. map_option fst (find (\<lambda>e. snd e = v) (RBT.entries m))),
     bm_put = (\<lambda>m k v. RBT.insert k v (RBT.filter (\<lambda>_ w. w \<noteq> v) m)),
     bm_remove = (\<lambda>m k. RBT.delete k m), bm_iter = RBT.entries,
     bm_size = (\<lambda>m. int (length (RBT.entries m)))\<rparr>"

interpretation rbt_bi: bidimap rbt_bidi
proof
  fix m :: "('a, 'b) RBT.rbt" and v k
  assume "bm_get_key rbt_bidi m v = Some k"
  then have "\<exists>e \<in> set (RBT.entries m). fst e = k \<and> snd e = v"
    by (auto simp: rbt_bidi_def find_Some_iff) (metis fst_conv nth_mem)
  then show "bm_get rbt_bidi m k = Some v"
    by (auto simp: rbt_bidi_def RBT.lookup_in_tree)
next
  fix m :: "('a, 'b) RBT.rbt" and v k
  assume "bm_get_key rbt_bidi m v = None"
  then show "bm_get rbt_bidi m k \<noteq> Some v"
    by (auto simp: rbt_bidi_def find_None_iff RBT.lookup_in_tree)
qed (auto simp: rbt_bidi_def rbt_entries_strict RBT.lookup_filter split: option.splits)

end
