(* ===== verification/Windows.thy ===== *)
theory Windows
  imports Gods
begin

text \<open>
  \<^verbatim>\<open>window.go\<close>: the rolling window, a count of events per time slice kept in an ordered map from the
  slice's start (Unix nanoseconds) to the count. The relation \<open>win_rep\<close> says which instants a
  window counts; every operation is characterised on it.
\<close>

section \<open>The window and its operations\<close>

text \<open>
  \<open>Window\<close>: \<open>data\<close>, \<open>windowSize\<close> and \<open>numWindows\<close>. The mutex is left out: every operation runs
  under it, so it is atomic. Window sizes are positive: \<open>time.NewTicker\<close> panics on others before
  the program builds its first window (see \<open>new_history\<close>).
\<close>

record 'm window =
  w_data :: 'm
  w_size :: duration
  w_num :: int

definition new_window :: "(int, int, 'm) treemap_api \<Rightarrow> duration \<Rightarrow> int \<Rightarrow> 'm window" where
  "new_window T ws n = \<lparr>w_data = tm_new T, w_size = ws, w_num = n\<rparr>"

text \<open>\<open>keyFor\<close>: the remainder truncates towards zero, so slices before 1970 round up.\<close>

definition window_key :: "duration \<Rightarrow> time \<Rightarrow> int" where
  "window_key ws t = i64 (unix_nano t - unix_nano t smod ws)"

definition window_add :: "(int, int, 'm) treemap_api \<Rightarrow> time \<Rightarrow> 'm window \<Rightarrow> 'm window" where
  "window_add T t w =
     (let key = window_key (w_size w) t;
          val = (case tm_get T (w_data w) key of Some v \<Rightarrow> v | None \<Rightarrow> 0)
      in w\<lparr>w_data := tm_put T (w_data w) key (i64 (val + 1))\<rparr>)"

definition window_count :: "(int, int, 'm) treemap_api \<Rightarrow> 'm window \<Rightarrow> int" where
  "window_count T w = foldl (\<lambda>total v. i64 (total + v)) 0 (map snd (tm_iter T (w_data w)))"

text \<open>
  \<open>time.Now().Add(-1 * windowSize * Duration(numWindows)).UnixNano()\<close>, with \<open>now\<close> the clock reading.
\<close>

definition window_threshold :: "duration \<Rightarrow> int \<Rightarrow> time \<Rightarrow> int" where
  "window_threshold ws n now = unix_nano (now + i64 (i64 (- 1 * ws) * n))"

text \<open>
  The loop of \<open>Expire\<close>: the iterator runs through the keys in ascending order, the loop removes
  the key it stands on and breaks at the first key that has reached the threshold.
\<close>

fun expire_loop ::
  "(int, 'v, 'm) treemap_api \<Rightarrow> int \<Rightarrow> (int \<times> 'v) list \<Rightarrow> 'm \<Rightarrow> 'm" where
  "expire_loop T threshold [] m = m"
| "expire_loop T threshold ((key, v) # iter) m =
     (if key \<ge> threshold then m else expire_loop T threshold iter (tm_remove T m key))"

definition window_expire :: "(int, int, 'm) treemap_api \<Rightarrow> time \<Rightarrow> 'm window \<Rightarrow> 'm window \<times> int" where
  "window_expire T now w =
     (let threshold = window_threshold (w_size w) (w_num w) now;
          m = expire_loop T threshold (tm_iter T (w_data w)) (w_data w)
      in (w\<lparr>w_data := m\<rparr>, tm_size T m))"

text \<open>\<open>Map\<close> copies the buckets into a Go map.\<close>

definition window_map :: "(int, int, 'm) treemap_api \<Rightarrow> 'm window \<Rightarrow> (int \<rightharpoonup> int)" where
  "window_map T w = foldl (\<lambda>res (key, v). res(key \<mapsto> v)) Map.empty (tm_iter T (w_data w))"

section \<open>What a window counts\<close>

definition bucket_count :: "duration \<Rightarrow> time multiset \<Rightarrow> int \<Rightarrow> nat" where
  "bucket_count ws M k = count (image_mset (window_key ws) M) k"

definition win_rep :: "(int, int, 'm) treemap_api \<Rightarrow> 'm window \<Rightarrow> time multiset \<Rightarrow> bool" where
  "win_rep T w M \<longleftrightarrow>
     (\<forall>k. tm_get T (w_data w) k =
        (let c = bucket_count (w_size w) M k in if c = 0 then None else Some (i64 (int c))))"

definition live_from :: "duration \<Rightarrow> int \<Rightarrow> time multiset \<Rightarrow> time multiset" where
  "live_from ws threshold M = filter_mset (\<lambda>t. threshold \<le> window_key ws t) M"

lemma bucket_count_add [simp]:
  "bucket_count ws (add_mset t M) k =
     (if k = window_key ws t then Suc (bucket_count ws M k) else bucket_count ws M k)"
  by (simp add: bucket_count_def)

lemma bucket_count_empty [simp]: "bucket_count ws {#} k = 0"
  by (simp add: bucket_count_def)

lemma bucket_count_live:
  "bucket_count ws (live_from ws th M) k = (if th \<le> k then bucket_count ws M k else 0)"
  by (induction M) (auto simp: live_from_def bucket_count_def)

lemma bucket_count_0_iff: "bucket_count ws M k = 0 \<longleftrightarrow> k \<notin> window_key ws ` set_mset M"
  by (simp add: bucket_count_def count_eq_zero_iff)

lemma sum_bucket_count:
  "(\<Sum>k \<in> window_key ws ` set_mset M. bucket_count ws M k) = size M"
  using size_multiset_overloaded_eq [of "image_mset (window_key ws) M"]
  by (simp add: bucket_count_def)

lemma window_sizes [simp]:
  "w_size (window_add T t w) = w_size w" "w_num (window_add T t w) = w_num w"
  "w_size (fst (window_expire T now w)) = w_size w" "w_num (fst (window_expire T now w)) = w_num w"
  "w_size (new_window T ws n) = ws" "w_num (new_window T ws n) = n"
  by (simp_all add: window_add_def window_expire_def new_window_def Let_def)

text \<open>
  The ordered maps from slices to counts: the map interface at integer keys and values.
\<close>

locale window_store = treemap T for T :: "(int, int, 'm) treemap_api"
begin

lemma expire_loop_get:
  assumes "sorted_wrt (<) (map fst it)"
  shows "tm_get T (expire_loop T th it m) k =
           (if k \<in> set (map fst it) \<and> k < th then None else tm_get T m k)"
  using assms
proof (induction it arbitrary: m)
  case Nil
  then show ?case by simp
next
  case (Cons e it)
  obtain key v where e: "e = (key, v)" by force
  show ?case
  proof (cases "key \<ge> th")
    case True
    with Cons.prems have "\<not> (k \<in> set (map fst (e # it)) \<and> k < th)"
      by (auto simp: e)
    then have "(if k \<in> set (map fst (e # it)) \<and> k < th then None else tm_get T m k) = tm_get T m k"
      by (rule if_not_P)
    moreover have "expire_loop T th (e # it) m = m" using True by (simp add: e)
    ultimately show ?thesis by metis
  next
    case False
    from Cons.prems have "sorted_wrt (<) (map fst it)" by simp
    from Cons.IH [OF this] False show ?thesis by (auto simp: e)
  qed
qed

lemma expire_get:
  "tm_get T (expire_loop T th (tm_iter T m) m) k = (if k < th then None else tm_get T m k)"
proof -
  have "k \<in> set (map fst (tm_iter T m)) \<longleftrightarrow> tm_get T m k \<noteq> None"
    unfolding iter_keys by auto
  then show ?thesis
    by (simp add: expire_loop_get [OF iter_sorted])
qed

lemma iter_sum:
  "sum_list (map snd (tm_iter T m)) = (\<Sum>k \<in> dom (tm_get T m). the (tm_get T m k))"
  using sum_list_snd_map_of [OF iter_distinct, of m] by (simp add: iter_get iter_keys del: set_map)

end

text \<open>The characteristic lemmas of the operations on the represented instants.\<close>

context window_store
begin

lemma new_window_rep: "win_rep T (new_window T ws n) {#}"
  by (simp add: win_rep_def new_window_def)

lemma window_add_rep:
  assumes "win_rep T w M"
  shows "win_rep T (window_add T t w) (add_mset t M)"
  using assms unfolding win_rep_def
  by (auto simp: window_add_def Let_def add.commute)

lemma window_expire_rep:
  assumes "win_rep T w M"
  shows "win_rep T (fst (window_expire T now w))
           (live_from (w_size w) (window_threshold (w_size w) (w_num w) now) M)"
  using assms unfolding win_rep_def
  by (auto simp: window_expire_def Let_def expire_get bucket_count_live)

lemma rep_dom:
  assumes "win_rep T w M"
  shows "dom (tm_get T (w_data w)) = window_key (w_size w) ` set_mset M"
proof -
  have "k \<in> dom (tm_get T (w_data w)) \<longleftrightarrow> bucket_count (w_size w) M k \<noteq> 0" for k
    using assms by (auto simp: win_rep_def Let_def dom_def)
  then show ?thesis by (auto simp: bucket_count_0_iff)
qed

lemma window_count_rep:
  assumes "win_rep T w M"
  shows "window_count T w = i64 (int (size M))"
proof -
  let ?ws = "w_size w" and ?g = "tm_get T (w_data w)"
  have val: "i64 (the (?g k)) = i64 (int (bucket_count ?ws M k))" if "k \<in> dom ?g" for k
  proof -
    have "?g k = (if bucket_count ?ws M k = 0 then None else Some (i64 (int (bucket_count ?ws M k))))"
      using assms unfolding win_rep_def Let_def by blast
    with that show ?thesis by (auto split: if_splits)
  qed
  have fin: "finite (dom ?g)" by (rule finite_dom)
  have "window_count T w = i64 (\<Sum>k \<in> dom ?g. the (?g k))"
    using i64_sum_eq [of "map snd (tm_iter T (w_data w))"]
    by (simp add: window_count_def i64_sum_def iter_sum)
  also have "\<dots> = i64 (\<Sum>k \<in> dom ?g. int (bucket_count ?ws M k))"
    using fin val by (rule i64_sum_cong)
  also have "(\<Sum>k \<in> dom ?g. int (bucket_count ?ws M k)) = int (size M)"
    by (simp add: rep_dom [OF assms] flip: of_nat_sum sum_bucket_count [of ?ws M])
  finally show ?thesis .
qed

lemma expire_size_rep:
  assumes "win_rep T w M"
  shows "snd (window_expire T now w) =
    int (card (window_key (w_size w) `
      set_mset (live_from (w_size w) (window_threshold (w_size w) (w_num w) now) M)))"
  using rep_dom [OF window_expire_rep [OF assms, of now]]
  by (simp add: window_expire_def Let_def size_card)

lemma window_map_get: "window_map T w = tm_get T (w_data w)"
proof -
  have "foldl (\<lambda>res (key, v). res(key \<mapsto> v)) g al = g ++ map_of al"
    if "distinct (map fst al)" for g :: "int \<rightharpoonup> int" and al
    using that
  proof (induction al arbitrary: g)
    case Nil
    then show ?case by simp
  next
    case (Cons e al)
    obtain a b where e: "e = (a, b)" by force
    with Cons.prems have "a \<notin> dom (map_of al)" by (simp add: dom_map_of_conv_image_fst)
    then have "g(a \<mapsto> b) ++ map_of al = g ++ map_of (e # al)"
      by (simp add: e map_add_upd_left del: fun_upd_apply)
    with Cons show ?case by (simp add: e del: fun_upd_apply)
  qed
  from this [OF iter_distinct] show ?thesis by (simp add: window_map_def iter_get)
qed

end

interpretation rbt_win: window_store rbt_api
  by unfold_locales

section \<open>Properties\<close>

text \<open>A run of the two operations, on the window and on the instants it should count.\<close>

datatype win_event = Added time | Expired time

fun window_run :: "(int, int, 'm) treemap_api \<Rightarrow> win_event list \<Rightarrow> 'm window \<Rightarrow> 'm window" where
  "window_run T [] w = w"
| "window_run T (Added t # es) w = window_run T es (window_add T t w)"
| "window_run T (Expired now # es) w = window_run T es (fst (window_expire T now w))"

fun live_run :: "duration \<Rightarrow> int \<Rightarrow> win_event list \<Rightarrow> time multiset \<Rightarrow> time multiset" where
  "live_run ws n [] M = M"
| "live_run ws n (Added t # es) M = live_run ws n es (add_mset t M)"
| "live_run ws n (Expired now # es) M = live_run ws n es (live_from ws (window_threshold ws n now) M)"

context window_store
begin

lemma window_run_rep:
  "win_rep T w M \<Longrightarrow> win_rep T (window_run T es w) (live_run (w_size w) (w_num w) es M)"
proof (induction es arbitrary: w M)
  case Nil
  then show ?case by simp
next
  case (Cons e es)
  show ?case
  proof (cases e)
    case (Added t)
    with Cons.IH [OF window_add_rep [OF Cons.prems, of t]] show ?thesis by simp
  next
    case (Expired now)
    with Cons.IH [OF window_expire_rep [OF Cons.prems, of now]] show ?thesis by simp
  qed
qed

end

lemma window_run_size: "w_size (window_run T es w) = w_size w"
  by (induction T es w rule: window_run.induct) simp_all

text \<open>
  C16: The rolling window refines its specification: after any run of \<open>Add\<close> and \<open>Expire\<close> calls, \<open>Count\<close>
  is the number of instants added and not yet expired, as a 64-bit integer, and \<open>Map\<close> has for each slice
  the number of those instants that lie in it.
\<close>

theorem window_run_counts:
  assumes "window_store T"
  shows "window_count T (window_run T es (new_window T ws n)) = i64 (int (size (live_run ws n es {#}))) \<and>
    window_map T (window_run T es (new_window T ws n)) k =
      (let c = bucket_count ws (live_run ws n es {#}) k in if c = 0 then None else Some (i64 (int c)))"
proof -
  have rep: "win_rep T (window_run T es (new_window T ws n)) (live_run ws n es {#})"
    using window_store.window_run_rep [OF assms window_store.new_window_rep [OF assms], of es ws n] by simp
  have "w_size (window_run T es (new_window T ws n)) = ws" by (simp add: window_run_size)
  with rep have "tm_get T (w_data (window_run T es (new_window T ws n))) k =
      (let c = bucket_count ws (live_run ws n es {#}) k in if c = 0 then None else Some (i64 (int c)))"
    unfolding win_rep_def by simp
  with window_store.window_count_rep [OF assms rep] window_store.window_map_get [OF assms] show ?thesis by simp
qed

lemma window_key_bounds:
  assumes "0 < ws" and "0 \<le> t" and "in64 t"
  shows "t - ws < window_key ws t \<and> window_key ws t \<le> t"
proof -
  have "t mod ws < ws" "0 \<le> t mod ws" "t mod ws \<le> t" using assms by (simp_all add: zmod_le_nonneg_dividend)
  then have "in64 (t - t mod ws)" using assms unfolding in64_def by linarith
  then have "window_key ws t = t - t mod ws"
    using assms by (simp add: window_key_def unix_nano_id smod_nonneg i64_id)
  with \<open>t mod ws < ws\<close> \<open>0 \<le> t mod ws\<close> show ?thesis by simp
qed

text \<open>
  How long the window keeps an instant: \<open>Expire\<close> at \<open>now\<close> keeps everything from the last \<open>n - 1\<close>
  slices' length, and drops everything older than \<open>n\<close> slices' length.
\<close>

theorem window_retention:
  assumes "0 < ws" and "0 \<le> t" and "in64 t" and "0 \<le> n" and "in64 (ws * n)" and "in64 (now - ws * n)"
  shows "(now - ws * (n - 1) \<le> t \<longrightarrow> live_from ws (window_threshold ws n now) {#t#} = {#t#}) \<and>
    (t < now - ws * n \<longrightarrow> live_from ws (window_threshold ws n now) {#t#} = {#})"
proof -
  have "0 \<le> ws * n" using assms by simp
  then have "in64 (- (ws * n))" using assms(5) by (simp add: in64_def)
  then have th: "window_threshold ws n now = now - ws * n"
    using assms by (simp add: window_threshold_def unix_nano_id i64_id)
  show ?thesis
    using window_key_bounds [OF assms(1-3)] by (auto simp: live_from_def th algebra_simps)
qed

lemma window_run_counts_witness:
  "window_count rbt_api (window_run rbt_api [Added 5, Added 15, Expired 35, Added 36] (new_window rbt_api 10 2)) =
     i64 (int (size (live_run 10 2 [Added 5, Added 15, Expired 35, Added 36] {#})))"
  using window_run_counts [OF rbt_win.window_store_axioms, of "[Added 5, Added 15, Expired 35, Added 36]" 10 2 0] by simp

lemma window_retention_witness:
  "live_from 10 (window_threshold 10 2 35) {#25#} = {#25#} \<and> live_from 10 (window_threshold 10 2 35) {#14#} = {#}"
  using window_retention [of 10 25 2 35] window_retention [of 10 14 2 35] by (simp add: in64_def)

end
