(* ===== verification/Float64.thy ===== *)
theory Float64
  imports Prelude
begin

text \<open>
  Go's \<open>float64\<close> for the values the program computes: counts, quotients of counts and sums of such
  quotients. A value is NaN, an infinity or a finite number with a 53-bit significand; every operation
  rounds its exact result to the nearest such number, ties to even (IEEE 754). The numbers of the
  program lie far inside the exponent range, so overflow to infinity, subnormal numbers and the sign of
  zero are left out.
\<close>

datatype f64 = NaN | Inf bool | Fin rat

section \<open>Rounding\<close>

text \<open>Round to the nearest integer, ties to even; and the binary exponent of a positive number.\<close>

definition rne :: "rat \<Rightarrow> int" where
  "rne x = (let f = \<lfloor>x\<rfloor>; d = x - of_int f
            in if d < 1 / 2 then f else if d > 1 / 2 then f + 1 else if even f then f else f + 1)"

definition bexp :: "rat \<Rightarrow> int" where
  "bexp x = (let (n, d) = quotient_of x;
                 e = int (floorlog 2 (nat n)) - int (floorlog 2 (nat d))
             in if 2 powi e \<le> x then e else e - 1)"

definition fl_pos :: "rat \<Rightarrow> rat" where
  "fl_pos x = (let s = 2 powi (52 - bexp x) in of_int (rne (x * s)) / s)"

definition fl :: "rat \<Rightarrow> rat" where
  "fl x = (if x = 0 then 0 else if x < 0 then - fl_pos (- x) else fl_pos x)"

section \<open>Operations\<close>

definition f64_of_int :: "int \<Rightarrow> f64" where
  "f64_of_int n = Fin (fl (of_int n))"

fun f64_div :: "f64 \<Rightarrow> f64 \<Rightarrow> f64" where
  "f64_div (Fin a) (Fin b) =
     (if b = 0 then (if a = 0 then NaN else Inf (a < 0)) else Fin (fl (a / b)))"
| "f64_div (Inf s) (Fin b) = Inf (if b < 0 then \<not> s else s)"
| "f64_div (Fin a) (Inf s) = Fin 0"
| "f64_div _ _ = NaN"

fun f64_add :: "f64 \<Rightarrow> f64 \<Rightarrow> f64" where
  "f64_add (Fin a) (Fin b) = Fin (fl (a + b))"
| "f64_add (Inf s) (Fin b) = Inf s"
| "f64_add (Fin a) (Inf s) = Inf s"
| "f64_add (Inf s) (Inf t) = (if s = t then Inf s else NaN)"
| "f64_add _ _ = NaN"

text \<open>Comparisons are false on NaN, so \<open>f64\<close> is no order of the library: only its symbols are used.\<close>

instantiation f64 :: ord
begin

fun less_eq_f64 :: "f64 \<Rightarrow> f64 \<Rightarrow> bool" where
  "less_eq_f64 (Fin a) (Fin b) = (a \<le> b)"
| "less_eq_f64 (Inf s) (Fin b) = s"
| "less_eq_f64 (Fin a) (Inf s) = (\<not> s)"
| "less_eq_f64 (Inf s) (Inf t) = (s \<or> \<not> t)"
| "less_eq_f64 _ _ = False"

fun less_f64 :: "f64 \<Rightarrow> f64 \<Rightarrow> bool" where
  "less_f64 (Fin a) (Fin b) = (a < b)"
| "less_f64 (Inf s) (Fin b) = s"
| "less_f64 (Fin a) (Inf s) = (\<not> s)"
| "less_f64 (Inf s) (Inf t) = (s \<and> \<not> t)"
| "less_f64 _ _ = False"

instance ..

end

section \<open>Facts about rounding\<close>

lemma rne_of_int [simp]: "rne (of_int n) = n"
  by (simp add: rne_def)

lemma floor_bounds: "of_int \<lfloor>x\<rfloor> \<le> (x::rat) \<and> x < of_int \<lfloor>x\<rfloor> + 1"
  using floor_correct [of x] by simp

lemma rne_error: "\<bar>of_int (rne x) - x\<bar> \<le> 1 / 2"
  using floor_bounds [of x] by (auto simp: rne_def Let_def abs_le_iff; linarith)

lemma rne_floor: "rne x = \<lfloor>x\<rfloor> \<or> rne x = \<lfloor>x\<rfloor> + 1 \<and> of_int \<lfloor>x\<rfloor> < x"
  using floor_bounds [of x] by (auto simp: rne_def Let_def)

lemma rne_le: "x \<le> of_int n \<Longrightarrow> rne x \<le> n"
  using rne_floor [of x] floor_bounds [of x] by (auto simp: floor_le_iff)

lemma rne_ge: "of_int n \<le> x \<Longrightarrow> n \<le> rne x"
  using rne_floor [of x] le_floor_iff [of n x] by auto

lemma powi_nat_diff: "0 < m \<Longrightarrow> (2::rat) powi (int m - 1) = 2 ^ (m - 1)"
  by (metis Suc_pred' of_nat_1 of_nat_diff One_nat_def Suc_leI power_int_of_nat)

lemma floorlog_le: "0 < n \<Longrightarrow> (2::rat) powi (int (floorlog 2 n) - 1) \<le> of_nat n"
proof -
  assume n: "0 < n"
  then have pos: "0 < floorlog 2 n" by (simp add: floorlog_eq_zero_iff neq0_conv [symmetric] del: neq0_conv)
  have "2 ^ (floorlog 2 n - 1) \<le> n" using floorlog_bounds [OF n, of 2] by simp
  then have "(of_nat (2 ^ (floorlog 2 n - 1)) :: rat) \<le> of_nat n" by (rule of_nat_mono)
  then show ?thesis by (simp add: powi_nat_diff [OF pos])
qed

lemma floorlog_gt: "0 < n \<Longrightarrow> (of_nat n ::rat) < 2 powi int (floorlog 2 n)"
proof -
  assume n: "0 < n"
  have "n < 2 ^ floorlog 2 n" using floorlog_bounds [OF n, of 2] by simp
  then have "(of_nat n :: rat) < of_nat (2 ^ floorlog 2 n)" by (rule of_nat_less_iff [THEN iffD2])
  then show ?thesis by simp
qed

lemma bexp_bounds:
  assumes "0 < x"
  shows "2 powi bexp x \<le> x" and "x < 2 powi (bexp x + 1)"
proof -
  obtain n d where q: "quotient_of x = (n, d)" by force
  have d: "0 < d" using quotient_of_denom_pos [OF q] .
  have x: "x = of_int n / of_int d" using quotient_of_div [OF q] .
  with assms d have n: "0 < n" by (simp add: zero_less_divide_iff)
  let ?a = "int (floorlog 2 (nat n))" and ?b = "int (floorlog 2 (nat d))"
  have N: "2 powi (?a - 1) \<le> (of_int n :: rat)" "(of_int n :: rat) < 2 powi ?a"
    using floorlog_le [of "nat n"] floorlog_gt [of "nat n"] n by simp_all
  have D: "2 powi (?b - 1) \<le> (of_int d :: rat)" "(of_int d :: rat) < 2 powi ?b"
    using floorlog_le [of "nat d"] floorlog_gt [of "nat d"] d by simp_all
  have hi: "x < 2 powi (?a - ?b + 1)"
  proof -
    have "x < 2 powi ?a / 2 powi (?b - 1)"
      unfolding x using N(2) D(1) d n by (intro frac_less) auto
    also have "\<dots> = 2 powi (?a - (?b - 1))"
      by (rule power_int_diff [symmetric]) simp
    also have "?a - (?b - 1) = ?a - ?b + 1" by simp
    finally show ?thesis .
  qed
  have lo: "2 powi (?a - ?b - 1) \<le> x"
  proof -
    have "2 powi (?a - 1) / 2 powi ?b \<le> x"
      unfolding x using N(1) D(2) d n by (intro frac_le) auto
    moreover have "(2::rat) powi (?a - 1) / 2 powi ?b = 2 powi (?a - 1 - ?b)"
      by (rule power_int_diff [symmetric]) simp
    moreover have "?a - 1 - ?b = ?a - ?b - 1" by simp
    ultimately show ?thesis by metis
  qed
  show "2 powi bexp x \<le> x" and "x < 2 powi (bexp x + 1)"
    using hi lo by (auto simp: bexp_def q Let_def)
qed

lemma fl_pos_scaled: "0 < x \<Longrightarrow> x * 2 powi (52 - bexp x) < 2 ^ 53 \<and> 2 ^ 52 \<le> x * 2 powi (52 - bexp x)"
proof -
  assume x: "0 < x"
  let ?e = "bexp x"
  have "x * 2 powi (52 - ?e) < 2 powi (?e + 1) * 2 powi (52 - ?e)"
    using bexp_bounds(2) [OF x] by (intro mult_strict_right_mono) auto
  also have "\<dots> = 2 powi 53" by (simp add: power_int_add [symmetric])
  finally have 1: "x * 2 powi (52 - ?e) < 2 ^ 53" by simp
  have "2 powi ?e * 2 powi (52 - ?e) \<le> x * 2 powi (52 - ?e)"
    using bexp_bounds(1) [OF x] by (intro mult_right_mono) auto
  moreover have "(2::rat) powi ?e * 2 powi (52 - ?e) = 2 powi 52"
    by (simp add: power_int_add [symmetric])
  ultimately show ?thesis using 1 by simp
qed

lemma fl_pos_nonneg: "0 < x \<Longrightarrow> 0 \<le> fl_pos x"
  using rne_ge [of 0 "x * 2 powi (52 - bexp x)"] by (simp add: fl_pos_def Let_def)

lemma fl_pos_error: "0 < x \<Longrightarrow> \<bar>fl_pos x - x\<bar> \<le> x / 2 ^ 53"
proof -
  assume x: "0 < x"
  define s :: rat where "s = 2 powi (52 - bexp x)"
  have s: "0 < s" by (simp add: s_def)
  have xs: "2 ^ 52 \<le> x * s" using fl_pos_scaled [OF x] by (simp add: s_def)
  have "fl_pos x - x = (of_int (rne (x * s)) - x * s) / s"
    using s by (simp add: fl_pos_def Let_def s_def [symmetric] field_simps)
  then have "\<bar>fl_pos x - x\<bar> = \<bar>of_int (rne (x * s)) - x * s\<bar> / s"
    using s by (simp add: abs_divide)
  also have "\<dots> \<le> (1 / 2) / s"
    using rne_error [of "x * s"] s by (intro divide_right_mono) auto
  also have "\<dots> \<le> x / 2 ^ 53"
    using xs s by (simp add: field_simps)
  finally show ?thesis .
qed

lemma fl_pos_le_powi: "0 < x \<Longrightarrow> x < 2 powi k \<Longrightarrow> fl_pos x \<le> 2 powi k"
proof -
  assume x: "0 < x" and k: "x < 2 powi k"
  let ?e = "bexp x"
  have "(2::rat) powi ?e < 2 powi k" using bexp_bounds(1) [OF x] k by linarith
  then have e: "?e + 1 \<le> k" by (metis not_le power_int_increasing one_le_numeral zless_imp_add1_zle)
  have "rne (x * 2 powi (52 - ?e)) \<le> 2 ^ 53"
    using fl_pos_scaled [OF x] by (intro rne_le) simp
  then have "of_int (rne (x * 2 powi (52 - ?e))) \<le> (2 ^ 53 :: rat)"
    by (metis of_int_le_iff of_int_numeral of_int_power)
  then have "fl_pos x \<le> 2 ^ 53 / 2 powi (52 - ?e)"
    by (simp add: fl_pos_def Let_def divide_right_mono)
  also have "(2 ^ 53 :: rat) / 2 powi (52 - ?e) = 2 powi (?e + 1)"
    using power_int_diff [of "2::rat" 53 "52 - ?e"] by (simp add: algebra_simps)
  also have "\<dots> \<le> 2 powi k" using e by (intro power_int_increasing) auto
  finally show ?thesis .
qed

lemma fl_pos_int:
  assumes "0 < n" and "n < 2 ^ 53"
  shows "fl_pos (of_int n) = of_int n"
proof -
  let ?x = "of_int n :: rat"
  let ?e = "bexp ?x"
  have x: "0 < ?x" using assms by simp
  have "?x < of_int (2 ^ 53)" using assms by (simp only: of_int_less_iff)
  then have "(2::rat) powi ?e < 2 powi 53" using bexp_bounds(1) [OF x] by simp
  then have "?e \<le> 52"
    by (metis not_le power_int_increasing one_le_numeral zless_imp_add1_zle add_le_cancel_right
        numeral_plus_one semiring_norm(5) semiring_norm(2))
  then obtain j where j: "52 - ?e = int j" by (metis diff_ge_0_iff_ge zero_le_imp_eq_int)
  then have p: "(2::rat) powi (52 - ?e) = 2 ^ j" by simp
  have "?x * 2 ^ j = of_int (n * 2 ^ j)" by simp
  then have "fl_pos ?x = of_int (n * 2 ^ j) / 2 ^ j"
    unfolding fl_pos_def Let_def p by (simp only: rne_of_int)
  then show ?thesis by simp
qed

lemma fl_of_int [simp]: "\<bar>n\<bar> < 2 ^ 53 \<Longrightarrow> fl (of_int n) = of_int n"
  using fl_pos_int [of n] fl_pos_int [of "- n"] by (auto simp: fl_def)

lemma fl_0 [simp]: "fl 0 = 0" and fl_1 [simp]: "fl 1 = 1"
  using fl_of_int [of 1] by (simp_all add: fl_def)

lemma fl_unit_interval: "0 \<le> x \<Longrightarrow> x \<le> 1 \<Longrightarrow> 0 \<le> fl x \<and> fl x \<le> 1"
  using fl_pos_nonneg [of x] fl_pos_le_powi [of x 0] fl_1 by (cases "x = 1") (auto simp: fl_def)

lemma fl_error: "0 \<le> x \<Longrightarrow> \<bar>fl x - x\<bar> \<le> x / 2 ^ 53"
  using fl_pos_error [of x] by (auto simp: fl_def)

text \<open>The quotient of two counts, as the program computes its ratios.\<close>

definition ratio_of :: "int \<Rightarrow> int \<Rightarrow> f64" where
  "ratio_of a b = f64_div (f64_of_int a) (f64_of_int b)"

lemma ratio_of_exact:
  "0 \<le> a \<Longrightarrow> a < 2 ^ 53 \<Longrightarrow> 0 < b \<Longrightarrow> b < 2 ^ 53 \<Longrightarrow> ratio_of a b = Fin (fl (of_int a / of_int b))"
  by (simp add: ratio_of_def f64_of_int_def)

lemma ratio_of_unit:
  assumes "0 \<le> a" and "a \<le> b" and "0 < b" and "b < 2 ^ 53"
  shows "Fin 0 \<le> ratio_of a b \<and> ratio_of a b \<le> Fin 1"
proof -
  have "ratio_of a b = Fin (fl (of_int a / of_int b))"
    using assms by (intro ratio_of_exact) auto
  then show ?thesis using assms fl_unit_interval [of "of_int a / of_int b"] by simp
qed

end
