(* ===== verification/GoRegexp.thy ===== *)
theory GoRegexp
  imports Prelude
begin

text \<open>
  The part of Go's \<open>regexp\<close> that the program's fixed patterns use: an abstract syntax, the end
  positions of a match that starts at a position, and \<open>MatchString\<close>, an unanchored search. Only whether
  a match exists matters to the program, so the set of end positions is all the matcher needs.
  \<^verbatim>\<open>matchers/matchers.go\<close> and \<^verbatim>\<open>requests.go\<close> hold the same pattern for asset URLs.
\<close>

section \<open>Syntax and matching\<close>

datatype re =
    Eps
  | Cls "char \<Rightarrow> bool"
  | Cat re re
  | Alt re re
  | Opt re
  | Star re
  | WordB
  | Bol
  | Eol

definition is_word :: "char \<Rightarrow> bool" where
  "is_word c \<longleftrightarrow> list_ex (\<lambda>(lo, hi). lo \<le> c \<and> c \<le> hi)
     [(CHR ''0'', CHR ''9''), (CHR ''A'', CHR ''Z''), (CHR ''_'', CHR ''_''), (CHR ''a'', CHR ''z'')]"

definition word_at :: "string \<Rightarrow> nat \<Rightarrow> bool" where
  "word_at s i \<longleftrightarrow> i < length s \<and> is_word (s ! i)"

definition word_boundary :: "string \<Rightarrow> nat \<Rightarrow> bool" where
  "word_boundary s i \<longleftrightarrow> (0 < i \<and> word_at s (i - 1)) \<noteq> word_at s i"

text \<open>Positions reachable by at most \<open>n\<close> rounds of a step.\<close>

fun rounds :: "nat \<Rightarrow> (nat \<Rightarrow> nat list) \<Rightarrow> nat list \<Rightarrow> nat list" where
  "rounds 0 f js = js"
| "rounds (Suc n) f js = remdups (js @ concat (map f (rounds n f js)))"

fun re_ends :: "re \<Rightarrow> string \<Rightarrow> nat \<Rightarrow> nat list" where
  "re_ends Eps s i = [i]"
| "re_ends (Cls p) s i = (if i < length s \<and> p (s ! i) then [Suc i] else [])"
| "re_ends (Cat a b) s i = concat (map (re_ends b s) (re_ends a s i))"
| "re_ends (Alt a b) s i = re_ends a s i @ re_ends b s i"
| "re_ends (Opt a) s i = re_ends a s i @ [i]"
| "re_ends (Star a) s i = rounds (Suc (length s)) (re_ends a s) [i]"
| "re_ends WordB s i = (if word_boundary s i then [i] else [])"
| "re_ends Bol s i = (if i = 0 then [i] else [])"
| "re_ends Eol s i = (if i = length s then [i] else [])"

definition match_string :: "re \<Rightarrow> string \<Rightarrow> bool" where
  "match_string r s = list_ex (\<lambda>i. re_ends r s i \<noteq> []) [0..<Suc (length s)]"

abbreviation chr :: "char \<Rightarrow> re" where
  "chr c \<equiv> Cls (\<lambda>d. d = c)"

fun lit :: "string \<Rightarrow> re" where
  "lit [] = Eps"
| "lit (c # cs) = Cat (chr c) (lit cs)"

fun alts :: "re list \<Rightarrow> re" where
  "alts [] = Cls (\<lambda>_. False)"
| "alts [r] = r"
| "alts (r # rs) = Alt r (alts rs)"

section \<open>The asset pattern\<close>

definition asset_alts :: "re list" where
  "asset_alts = [Cat (lit ''jp'') (Cat (Opt (chr CHR ''e'')) (chr CHR ''g'')), lit ''png'', lit ''gif'',
     lit ''webp'', Cat (lit ''tif'') (Opt (chr CHR ''f'')), lit ''pdf'', lit ''css'', lit ''js'',
     Cat (lit ''woff'') (Opt (chr CHR ''2'')), lit ''ttf'', lit ''eot'', lit ''svg'', lit ''ttc'']"

definition asset_re :: re where
  "asset_re = Cat (chr CHR ''.'') (Cat (alts asset_alts) WordB)"

definition asset_match :: "string \<Rightarrow> bool" where
  "asset_match url = match_string asset_re url"

text \<open>The extensions the pattern spells out.\<close>

definition asset_exts :: "string list" where
  "asset_exts = [''jpg'', ''jpeg'', ''png'', ''gif'', ''webp'', ''tif'', ''tiff'', ''pdf'', ''css'', ''js'',
     ''woff'', ''woff2'', ''ttf'', ''eot'', ''svg'', ''ttc'']"

definition has_at :: "string \<Rightarrow> nat \<Rightarrow> string \<Rightarrow> bool" where
  "has_at s i w \<longleftrightarrow> i \<le> length s \<and> take (length w) (drop i s) = w"

lemma has_at_Nil [simp]: "has_at s i [] \<longleftrightarrow> i \<le> length s"
  by (simp add: has_at_def)

lemma has_at_Cons [simp]: "has_at s i (c # w) \<longleftrightarrow> i < length s \<and> s ! i = c \<and> has_at s (Suc i) w"
proof (cases "i < length s")
  case True
  then have "drop i s = s ! i # drop (Suc i) s" by (rule Cons_nth_drop_Suc [symmetric])
  with True show ?thesis by (auto simp: has_at_def)
qed (auto simp: has_at_def)

lemma has_at_append: "has_at s i w \<longleftrightarrow> (\<exists>p q. s = p @ w @ q \<and> length p = i)"
proof
  assume "has_at s i w"
  then have w: "take (length w) (drop i s) = w" and "length (take i s) = i"
    by (auto simp: has_at_def)
  have "s = take i s @ take (length w) (drop i s) @ drop (length w) (drop i s)"
    by (simp only: append_take_drop_id)
  then have "s = take i s @ w @ drop (length w) (drop i s)"
    unfolding w .
  with \<open>length (take i s) = i\<close> show "\<exists>p q. s = p @ w @ q \<and> length p = i" by blast
qed (auto simp: has_at_def)

lemma lit_ends: "i \<le> length s \<Longrightarrow> set (re_ends (lit w) s i) = (if has_at s i w then {i + length w} else {})"
  by (induction w arbitrary: i) auto

lemma lit_ends_iff [simp]: "i \<le> length s \<Longrightarrow> j \<in> set (re_ends (lit w) s i) \<longleftrightarrow> has_at s i w \<and> j = i + length w"
  by (simp add: lit_ends)

lemma alts_ends: "set (re_ends (alts rs) s i) = (\<Union>r \<in> set rs. set (re_ends r s i))"
  by (induction rs rule: alts.induct) auto

lemma has_at_snoc: "has_at s i (v @ w) \<longleftrightarrow> has_at s i v \<and> has_at s (i + length v) w"
proof (induction v arbitrary: i)
  case Nil
  then show ?case by (auto simp: has_at_def)
qed auto

lemma cat_lit_ends:
  "i \<le> length s \<Longrightarrow> set (re_ends (Cat (lit w) r) s i) = (if has_at s i w then set (re_ends r s (i + length w)) else {})"
  by (simp add: lit_ends)

lemma asset_alts_ends:
  assumes "i \<le> length s"
  shows "j \<in> set (re_ends (alts asset_alts) s i) \<longleftrightarrow> (\<exists>e \<in> set asset_exts. has_at s i e \<and> j = i + length e)"
proof -
  define h where "h e \<longleftrightarrow> has_at s i e \<and> j = i + length e" for e
  have L: "j \<in> set (re_ends (lit w) s i) \<longleftrightarrow> h w" for w
    using assms by (simp add: h_def)
  have 1: "j \<in> set (re_ends (Cat (lit ''jp'') (Cat (Opt (chr CHR ''e'')) (chr CHR ''g''))) s i) \<longleftrightarrow>
      h ''jpg'' \<or> h ''jpeg''"
    unfolding h_def by (subst cat_lit_ends [OF assms]) auto
  have 2: "j \<in> set (re_ends (Cat (lit ''tif'') (Opt (chr CHR ''f''))) s i) \<longleftrightarrow> h ''tif'' \<or> h ''tiff''"
    unfolding h_def by (subst cat_lit_ends [OF assms]) auto
  have 3: "j \<in> set (re_ends (Cat (lit ''woff'') (Opt (chr CHR ''2''))) s i) \<longleftrightarrow> h ''woff'' \<or> h ''woff2''"
    unfolding h_def by (subst cat_lit_ends [OF assms]) auto
  have "j \<in> set (re_ends (alts asset_alts) s i) \<longleftrightarrow> (\<exists>e \<in> set asset_exts. h e)"
    unfolding alts_ends asset_alts_def asset_exts_def
    by (simp only: list.set UN_insert UN_empty Un_iff empty_iff 1 2 3 L bex_simps disj_assoc simp_thms)
  then show ?thesis by (simp only: h_def)
qed

lemma asset_ext_word: "e \<in> set asset_exts \<Longrightarrow> e \<noteq> [] \<and> is_word (last e)"
  by (auto simp: asset_exts_def is_word_def)

lemma asset_ends_iff:
  assumes "i \<le> length s"
  shows "re_ends asset_re s i \<noteq> [] \<longleftrightarrow>
    (\<exists>e \<in> set asset_exts. has_at s i (CHR ''.'' # e) \<and> \<not> word_at s (Suc i + length e))"
proof (cases "i < length s \<and> s ! i = CHR ''.''")
  case False
  then show ?thesis by (auto simp: asset_re_def)
next
  case True
  then have i: "Suc i \<le> length s" by simp
  have bnd: "word_boundary s (Suc i + length e) \<longleftrightarrow> \<not> word_at s (Suc i + length e)"
    if ext: "e \<in> set asset_exts" and at: "has_at s (Suc i) e" for e
  proof -
    obtain p q where pq: "s = p @ e @ q" "length p = Suc i"
      using at by (auto simp: has_at_append)
    have e: "e \<noteq> []" "is_word (last e)" using asset_ext_word [OF ext] by auto
    then have "s ! (Suc i + length e - 1) = last e" and "Suc i + length e - 1 < length s"
      using pq by (auto simp: nth_append last_conv_nth)
    with e have "word_at s (Suc i + length e - 1)" by (simp add: word_at_def)
    then show ?thesis by (simp add: word_boundary_def)
  qed
  have "re_ends asset_re s i \<noteq> [] \<longleftrightarrow>
      (\<exists>j \<in> set (re_ends (alts asset_alts) s (Suc i)). word_boundary s j)"
    using True by (auto simp: asset_re_def)
  also have "\<dots> \<longleftrightarrow> (\<exists>e \<in> set asset_exts. has_at s (Suc i) e \<and> word_boundary s (Suc i + length e))"
    unfolding Bex_def asset_alts_ends [OF i] by (auto simp only:)
  also have "\<dots> \<longleftrightarrow> (\<exists>e \<in> set asset_exts. has_at s (Suc i) e \<and> \<not> word_at s (Suc i + length e))"
    using bnd by blast
  finally show ?thesis using True by simp
qed

lemma ex_has_at:
  "(\<exists>i \<le> length s. \<exists>e \<in> E. has_at s i (f e) \<and> W (i + length (f e))) \<longleftrightarrow>
   (\<exists>e \<in> E. \<exists>p q. s = p @ f e @ q \<and> W (length p + length (f e)))"
proof
  assume "\<exists>i \<le> length s. \<exists>e \<in> E. has_at s i (f e) \<and> W (i + length (f e))"
  then obtain i e where "e \<in> E" and h: "has_at s i (f e)" and "W (i + length (f e))" by blast
  moreover obtain p q where "s = p @ f e @ q" and "length p = i" using h by (auto simp: has_at_append)
  ultimately show "\<exists>e \<in> E. \<exists>p q. s = p @ f e @ q \<and> W (length p + length (f e))" by blast
next
  assume "\<exists>e \<in> E. \<exists>p q. s = p @ f e @ q \<and> W (length p + length (f e))"
  then obtain e p q where "e \<in> E" and s: "s = p @ f e @ q" and "W (length p + length (f e))" by blast
  moreover from s have "has_at s (length p) (f e)" unfolding has_at_append by blast
  moreover from s have "length p \<le> length s" by simp
  ultimately show "\<exists>i \<le> length s. \<exists>e \<in> E. has_at s i (f e) \<and> W (i + length (f e))" by blast
qed

text \<open>
  C38: A URL counts as an asset exactly when it has a dot followed by one of sixteen extensions, and the
  extension is not continued by a letter, a digit or an underscore: \<open>/a.js?v=1\<close> is an asset,
  \<open>/a.json\<close> is not, and the extension may stand anywhere in the path or the query.
\<close>

theorem asset_match_iff:
  "asset_match url \<longleftrightarrow>
     (\<exists>p e q. url = p @ ''.'' @ e @ q \<and> e \<in> set asset_exts \<and>
        (case q of [] \<Rightarrow> True | c # _ \<Rightarrow> \<not> is_word c))"
proof -
  have cont: "url = p @ w @ q \<and> \<not> word_at url (length p + length w) \<longleftrightarrow>
      url = p @ w @ q \<and> (case q of [] \<Rightarrow> True | c # _ \<Rightarrow> \<not> is_word c)" for p w q :: string
    by (cases q) (auto simp: word_at_def nth_append)
  have "asset_match url \<longleftrightarrow>
      (\<exists>i \<le> length url. \<exists>e \<in> set asset_exts. has_at url i (CHR ''.'' # e) \<and> \<not> word_at url (i + length (CHR ''.'' # e)))"
  proof -
    have "asset_match url \<longleftrightarrow> (\<exists>i. i \<le> length url \<and> re_ends asset_re url i \<noteq> [])"
      unfolding asset_match_def match_string_def list_ex_iff Bex_def
      by (simp only: set_upt atLeastLessThan_iff less_Suc_eq_le le0 simp_thms)
    then show ?thesis
      by (simp add: asset_ends_iff del: has_at_Cons cong: conj_cong)
  qed
  also have "\<dots> \<longleftrightarrow> (\<exists>e \<in> set asset_exts. \<exists>p q. url = p @ (CHR ''.'' # e) @ q \<and>
      \<not> word_at url (length p + length (CHR ''.'' # e)))"
    by (rule ex_has_at)
  also have "\<dots> \<longleftrightarrow> (\<exists>p e q. url = p @ (CHR ''.'' # e) @ q \<and> e \<in> set asset_exts \<and>
        (case q of [] \<Rightarrow> True | c # _ \<Rightarrow> \<not> is_word c))"
    unfolding cont by blast
  finally show ?thesis by simp
qed

end
