(* ===== verification/Types.thy ===== *)
theory Types
  imports Float64 GoRegexp "HOL-Library.Word"
begin

text \<open>
  The data the components exchange: \<^verbatim>\<open>data/request.go\<close>, \<^verbatim>\<open>data/stats.go\<close>, \<^verbatim>\<open>data/message.go\<close>, and the
  configuration of \<^verbatim>\<open>config/config.go\<close>. Embedded structs are record extensions. Pointers to immutable
  values (\<open>*asndb.ASN\<close>, \<open>*net.IPNet\<close>, \<open>*geoip.City\<close>) are options, \<open>None\<close> the nil pointer.
\<close>

section \<open>Addresses\<close>

text \<open>
  \<open>net.IP\<close> is a slice of 4 or 16 bytes, the empty list standing for nil; \<open>net.IPNet\<close> is an address and
  a mask. \<open>asndb.ASN\<close> is a struct of another package: the fields are those the program reads.
\<close>

type_synonym byte = "8 word"
type_synonym ip = "byte list"

record ipnet =
  net_ip :: ip
  net_mask :: "byte list"

record asn =
  asn_network :: "ipnet option"
  asn_cidr :: string
  asn_number :: int
  asn_org :: string

text \<open>A string of Go is a sequence of bytes, here of characters; \<open>string(bytes)\<close> is a cast.\<close>

definition str_of_bytes :: "byte list \<Rightarrow> string" where
  "str_of_bytes bs = map (\<lambda>b. char_of (unat b)) bs"

lemma str_of_bytes_inj: "str_of_bytes xs = str_of_bytes ys \<longleftrightarrow> xs = ys"
proof -
  have "inj (\<lambda>b :: byte. char_of (unat b) :: char)"
  proof (rule injI)
    fix x y :: byte
    assume "char_of (unat x) = (char_of (unat y) :: char)"
    then have "of_char (char_of (unat x) :: char) = (of_char (char_of (unat y) :: char) :: nat)" by simp
    then have "unat x mod 256 = unat y mod 256" by (simp only: of_char_of)
    moreover have "unat x < 256" "unat y < 256" using unsigned_less [of x] unsigned_less [of y] by simp_all
    ultimately show "x = y" by (simp add: word_unat_eq_iff)
  qed
  then show ?thesis by (simp add: str_of_bytes_def inj_map_eq_map)
qed

lemma length_str_of_bytes [simp]: "length (str_of_bytes bs) = length bs"
  by (simp add: str_of_bytes_def)

section \<open>Requests\<close>

record request =
  rq_url :: string
  rq_host :: string
  rq_agent :: string
  rq_source :: string
  rq_method :: string
  rq_seq :: int
  rq_timestamp :: int
  rq_time :: time
  rq_asn :: "asn option"
  rq_is_app :: bool

section \<open>Statistics and messages\<close>

record stats =
  st_total :: int
  st_app :: int
  st_other :: int
  st_ratio :: f64
  st_ips :: int
  st_asn :: "asn option"

record ip_stats = stats +
  is_ip :: ip
  is_with_hostname :: int

text \<open>
  The reasons the program formats with \<open>Sprintf\<close>, one constructor per format string with its arguments;
  \<open>Reason\<close> is any other string, the empty one included.
\<close>

datatype reason =
    Reason string
  | TooManyRequests int int
  | TooManyAndRatio int int f64 f64
  | AsnTooMany int int f64 f64
  | NetworkTooMany int int f64 f64

record block_message = stats +
  bm_reason :: reason
  bm_city :: "string option"
  bm_blocked_at :: time

record ip_block_message = block_message +
  ibm_ip :: ip
  ibm_hostname :: string

record network_block_message = block_message +
  nbm_network :: "ipnet option"

text \<open>
  \<open>IPDetails\<close> of \<^verbatim>\<open>ipdata.go\<close>. Of a \<open>geoip.GeoIP\<close>, a struct of another package, the program reads only
  \<open>City\<close>, of which it prints the name: the name stands for it.
\<close>

record ip_details =
  id_ip :: ip
  id_hostname :: string
  id_asn :: "asn option"
  id_geoip :: "string option"
  id_total :: int
  id_app :: int
  id_other :: int
  id_ratio :: f64
  id_is_blocked :: bool
  id_block_reason :: reason
  id_whitelisted :: bool
  id_whitelist_reason :: string
  id_created_at :: time
  id_updated_at :: time
  id_last_block_at :: time
  id_force_block :: bool

section \<open>Configuration\<close>

text \<open>The fields of \<open>Config\<close> that the modelled components read.\<close>

record config =
  cf_window_size :: duration
  cf_num_windows :: int
  cf_keep_requests :: int
  cf_resolver_tries :: int
  cf_resolver_ttl :: duration
  cf_block_ttl :: duration
  cf_max_ratio :: f64
  cf_min_app :: int
  cf_max_app :: int
  cf_ignore_private_ips :: bool
  cf_cookie_name :: string
  cf_cookie_key :: string
  cf_cookie_secret :: string

text \<open>The configuration the witnesses use.\<close>

definition wit_cfg :: config where
  "wit_cfg = \<lparr>cf_window_size = 60 * 1000000000, cf_num_windows = 60, cf_keep_requests = 100,
     cf_resolver_tries = 3, cf_resolver_ttl = 86400 * 1000000000, cf_block_ttl = 3600 * 1000000000,
     cf_max_ratio = Fin (3 / 4), cf_min_app = 20, cf_max_app = 300, cf_ignore_private_ips = False,
     cf_cookie_name = ''id'', cf_cookie_key = ''AAAAAAAAAAAAAAAAAAAAAAAAAAAAAAAAAAAAAAAAAAA='',
     cf_cookie_secret = ''secret''\<rparr>"

text \<open>The ways a modelled operation panics.\<close>

datatype panic = NilDereference | IndexOutOfRange | DivideByZero | InvalidInput string

end
