(* ===== verification/RequestWindows.thy ===== *)
theory RequestWindows
  imports Windows Types
begin

text \<open>
  \<^verbatim>\<open>requestwindow.go\<close>: the most recent requests of an address, a list bounded in length and age, newest
  first. \<^verbatim>\<open>mapwindow.go\<close>: one rolling window per user agent. Go maps are association lists with
  distinct keys, in the order the loop over the map happens to visit them; lemmas on their results do
  not depend on that order.
\<close>

section \<open>The list of recent requests\<close>

record requests_window =
  rw_data :: "request list"
  rw_max_size :: int
  rw_ttl :: duration

definition new_requests_window :: "int \<Rightarrow> duration \<Rightarrow> int \<Rightarrow> requests_window" where
  "new_requests_window max_requests ws n =
     \<lparr>rw_data = [], rw_max_size = max_requests, rw_ttl = i64 (ws * n)\<rparr>"

text \<open>\<open>Add\<close>: push to the front, drop the last element if the list has outgrown its bound.\<close>

definition rw_add :: "request \<Rightarrow> requests_window \<Rightarrow> requests_window" where
  "rw_add r rw =
     (let d = r # rw_data rw
      in rw\<lparr>rw_data := (if int (length d) > rw_max_size rw then butlast d else d)\<rparr>)"

text \<open>\<open>Requests\<close>: the loop that copies the list from its front into a slice.\<close>

fun copy_requests :: "request list \<Rightarrow> nat \<Rightarrow> request option list \<Rightarrow> request option list" where
  "copy_requests [] i reqs = reqs"
| "copy_requests (e # es) i reqs = copy_requests es (Suc i) (reqs[i := Some e])"

definition rw_requests :: "requests_window \<Rightarrow> request option list" where
  "rw_requests rw = copy_requests (rw_data rw) 0 (replicate (length (rw_data rw)) None)"

definition rw_len :: "requests_window \<Rightarrow> int" where
  "rw_len rw = int (length (rw_data rw))"

text \<open>\<open>Expire\<close>: while the last element is older than the time to live, remove it.\<close>

function rw_expire_loop :: "time \<Rightarrow> duration \<Rightarrow> request list \<Rightarrow> request list" where
  "rw_expire_loop now ttl d =
     (if d = [] then d
      else if time_sub now (rq_time (last d)) \<le> ttl then d
      else rw_expire_loop now ttl (butlast d))"
  by pat_completeness auto
termination
  by (relation "measure (\<lambda>(now, ttl, d). length d)") auto

declare rw_expire_loop.simps [simp del]

definition rw_expire :: "time \<Rightarrow> requests_window \<Rightarrow> requests_window \<times> int" where
  "rw_expire now rw =
     (if rw_len rw \<le> 0 then (rw, 0)
      else let d = rw_expire_loop now (rw_ttl rw) (rw_data rw)
           in (rw\<lparr>rw_data := d\<rparr>, int (length d)))"

lemma copy_requests_eq:
  "i + length es = length reqs \<Longrightarrow> copy_requests es i reqs = take i reqs @ map Some es"
proof (induction es arbitrary: i reqs)
  case Nil
  then show ?case by simp
next
  case (Cons e es)
  then have i: "i < length reqs" by simp
  have "copy_requests (e # es) i reqs = take (Suc i) (reqs[i := Some e]) @ map Some es"
    using Cons by simp
  also have "take (Suc i) (reqs[i := Some e]) = take i reqs @ [Some e]"
    using i by (simp add: take_Suc_conv_app_nth)
  finally show ?case by simp
qed

lemma rw_requests_eq: "rw_requests rw = map Some (rw_data rw)"
  by (simp add: rw_requests_def copy_requests_eq)

lemma rw_expire_loop_eq:
  "rw_expire_loop now ttl d = rev (dropWhile (\<lambda>r. \<not> time_sub now (rq_time r) \<le> ttl) (rev d))"
proof (induction now ttl d rule: rw_expire_loop.induct)
  case (1 now ttl d)
  show ?case
  proof (cases d rule: rev_cases)
    case Nil
    then show ?thesis by (simp add: rw_expire_loop.simps)
  next
    case (snoc es e)
    with 1 show ?thesis by (subst rw_expire_loop.simps) simp
  qed
qed

lemma rw_expire_data:
  "rw_data (fst (rw_expire now rw)) =
     rev (dropWhile (\<lambda>r. \<not> time_sub now (rq_time r) \<le> rw_ttl rw) (rev (rw_data rw)))"
  by (simp add: rw_expire_def rw_len_def rw_expire_loop_eq Let_def)

lemma rw_expire_size: "snd (rw_expire now rw) = rw_len (fst (rw_expire now rw))"
  by (simp add: rw_expire_def rw_len_def Let_def)

lemma rw_bounds [simp]:
  "rw_max_size (rw_add r rw) = rw_max_size rw" "rw_ttl (rw_add r rw) = rw_ttl rw"
  "rw_max_size (fst (rw_expire now rw)) = rw_max_size rw" "rw_ttl (fst (rw_expire now rw)) = rw_ttl rw"
  by (simp_all add: rw_add_def rw_expire_def Let_def)

lemma rw_expire_le: "rw_len (fst (rw_expire now rw)) \<le> rw_len rw"
  using length_dropWhile_le [of "\<lambda>r. \<not> time_sub now (rq_time r) \<le> rw_ttl rw" "rev (rw_data rw)"]
  by (simp add: rw_len_def rw_expire_data)

lemma dropWhile_sorted_filter:
  "sorted_wrt (\<lambda>a b. P b \<longrightarrow> P a) xs \<Longrightarrow> dropWhile P xs = filter (\<lambda>x. \<not> P x) xs"
proof (induction xs)
  case Nil
  then show ?case by simp
next
  case (Cons x xs)
  then show ?case by (cases "P x") (auto simp: filter_id_conv)
qed

section \<open>The windows per user agent\<close>

record 'm map_window =
  mw_data :: "(string \<times> 'm window) list"
  mw_window_size :: duration
  mw_num_windows :: int

definition new_map_window :: "duration \<Rightarrow> int \<Rightarrow> 'm map_window" where
  "new_map_window ws n = \<lparr>mw_data = [], mw_window_size = ws, mw_num_windows = n\<rparr>"

definition mw_add :: "(int, int, 'm) treemap_api \<Rightarrow> request \<Rightarrow> 'm map_window \<Rightarrow> 'm map_window" where
  "mw_add T req mw =
     (let d = (case map_of (mw_data mw) (rq_agent req) of
                 None \<Rightarrow> AList.update (rq_agent req)
                           (new_window T (mw_window_size mw) (mw_num_windows mw)) (mw_data mw)
               | Some _ \<Rightarrow> mw_data mw)
      in mw\<lparr>mw_data := AList.update (rq_agent req)
               (window_add T (rq_time req) (the (map_of d (rq_agent req)))) d\<rparr>)"

definition mw_total :: "(int, int, 'm) treemap_api \<Rightarrow> 'm map_window \<Rightarrow> int" where
  "mw_total T mw = foldl (\<lambda>total (k, w). i64 (total + window_count T w)) 0 (mw_data mw)"

definition mw_total_map :: "(int, int, 'm) treemap_api \<Rightarrow> 'm map_window \<Rightarrow> (string \<rightharpoonup> int)" where
  "mw_total_map T mw = foldl (\<lambda>d (k, w). d(k \<mapsto> window_count T w)) Map.empty (mw_data mw)"

definition mw_size :: "'m map_window \<Rightarrow> int" where
  "mw_size mw = int (length (mw_data mw))"

text \<open>
  \<open>Expire\<close> expires each window, at the clock reading \<open>now k\<close> of its own turn, and deletes the windows that
  have become empty; \<open>Window\<close> values are pointers, so the expired window stays in the map.
\<close>

fun mw_expire_loop :: "(int, int, 'm) treemap_api \<Rightarrow> (string \<Rightarrow> time) \<Rightarrow> (string \<times> 'm window) list
    \<Rightarrow> (string \<times> 'm window) list \<times> int \<Rightarrow> (string \<times> 'm window) list \<times> int" where
  "mw_expire_loop T now [] acc = acc"
| "mw_expire_loop T now ((k, w) # rest) (d, n) =
     (let (w', size) = window_expire T (now k) w
      in mw_expire_loop T now rest
           (if size \<le> 0 then AList.delete k d else AList.update k w' d, i64 (n + size)))"

definition mw_expire :: "(int, int, 'm) treemap_api \<Rightarrow> (string \<Rightarrow> time) \<Rightarrow> 'm map_window
    \<Rightarrow> 'm map_window \<times> int" where
  "mw_expire T now mw =
     (let (d, n) = mw_expire_loop T now (mw_data mw) (mw_data mw, 0)
      in (mw\<lparr>mw_data := d\<rparr>, n))"

section \<open>What the windows per user agent count\<close>

text \<open>
  The abstract state is the multiset of the pairs of user agent and instant that are counted.
\<close>

definition agent_times :: "(string \<times> time) multiset \<Rightarrow> string \<Rightarrow> time multiset" where
  "agent_times R k = image_mset snd (filter_mset (\<lambda>p. fst p = k) R)"

definition mw_rep :: "(int, int, 'm) treemap_api \<Rightarrow> 'm map_window \<Rightarrow> (string \<times> time) multiset \<Rightarrow> bool" where
  "mw_rep T mw R \<longleftrightarrow> distinct (map fst (mw_data mw)) \<and>
     (\<forall>k. case map_of (mw_data mw) k of
            None \<Rightarrow> agent_times R k = {#}
          | Some w \<Rightarrow> win_rep T w (agent_times R k) \<and>
              w_size w = mw_window_size mw \<and> w_num w = mw_num_windows mw)"

definition mw_live :: "duration \<Rightarrow> int \<Rightarrow> (string \<Rightarrow> time) \<Rightarrow> (string \<times> time) multiset
    \<Rightarrow> (string \<times> time) multiset" where
  "mw_live ws n now R = filter_mset (\<lambda>(k, t). window_threshold ws n (now k) \<le> window_key ws t) R"

lemma agent_times_add [simp]:
  "agent_times (add_mset (a, t) R) k = (if k = a then add_mset t (agent_times R k) else agent_times R k)"
  by (simp add: agent_times_def)

lemma agent_times_empty [simp]: "agent_times {#} k = {#}"
  by (simp add: agent_times_def)

lemma agent_times_live:
  "agent_times (mw_live ws n now R) k = live_from ws (window_threshold ws n (now k)) (agent_times R k)"
  by (induction R) (auto simp: agent_times_def mw_live_def live_from_def)

lemma agent_times_0: "(\<forall>k. agent_times R k = {#}) \<longleftrightarrow> R = {#}"
  by (auto simp: agent_times_def filter_mset_eq_conv)

lemma size_agent_times:
  "finite A \<Longrightarrow> fst ` set_mset R \<subseteq> A \<Longrightarrow> size R = (\<Sum>k \<in> A. size (agent_times R k))"
proof (induction R)
  case empty
  then show ?case by simp
next
  case (add p R)
  obtain a t where p: "p = (a, t)" by force
  with add have a: "a \<in> A" by auto
  have "(\<Sum>k \<in> A. size (agent_times (add_mset p R) k)) =
      (\<Sum>k \<in> A. size (agent_times R k) + (if k = a then 1 else 0))"
    by (rule sum.cong) (auto simp: p)
  also have "\<dots> = (\<Sum>k \<in> A. size (agent_times R k)) + 1"
    using add.prems(1) a by (simp add: sum.distrib)
  finally show ?case using add by simp
qed

lemma mw_rep_distinct: "mw_rep T mw R \<Longrightarrow> distinct (map fst (mw_data mw))"
  by (simp add: mw_rep_def)

lemma mw_rep_at:
  assumes "mw_rep T mw R"
  shows "case map_of (mw_data mw) k of
            None \<Rightarrow> agent_times R k = {#}
          | Some w \<Rightarrow> win_rep T w (agent_times R k) \<and>
              w_size w = mw_window_size mw \<and> w_num w = mw_num_windows mw"
  using assms unfolding mw_rep_def by blast

lemma mw_rep_None: "mw_rep T mw R \<Longrightarrow> map_of (mw_data mw) k = None \<Longrightarrow> agent_times R k = {#}"
  using mw_rep_at [of T mw R k] by simp

lemma mw_rep_Some:
  "mw_rep T mw R \<Longrightarrow> map_of (mw_data mw) k = Some w \<Longrightarrow>
     win_rep T w (agent_times R k) \<and> w_size w = mw_window_size mw \<and> w_num w = mw_num_windows mw"
  using mw_rep_at [of T mw R k] by (simp del: map_of_eq_Some_iff)

lemma mw_repI:
  assumes "distinct (map fst (mw_data mw))"
    and "\<And>k. map_of (mw_data mw) k = None \<Longrightarrow> agent_times R k = {#}"
    and "\<And>k w. map_of (mw_data mw) k = Some w \<Longrightarrow>
      win_rep T w (agent_times R k) \<and> w_size w = mw_window_size mw \<and> w_num w = mw_num_windows mw"
  shows "mw_rep T mw R"
  unfolding mw_rep_def using assms by (simp split: option.split del: map_of_eq_Some_iff)

lemma mw_rep_keys: "mw_rep T mw R \<Longrightarrow> fst ` set_mset R \<subseteq> set (map fst (mw_data mw))"
proof
  fix k assume rep: "mw_rep T mw R" and "k \<in> fst ` set_mset R"
  then have "agent_times R k \<noteq> {#}" by (auto simp: agent_times_def filter_mset_eq_conv)
  with rep have "map_of (mw_data mw) k \<noteq> None" using mw_rep_None by blast
  then show "k \<in> set (map fst (mw_data mw))" by (simp add: map_of_eq_None_iff)
qed

lemma new_map_window_rep: "mw_rep T (new_map_window ws n) {#}"
  by (simp add: mw_rep_def new_map_window_def)

lemma mw_sizes [simp]:
  "mw_window_size (mw_add T r mw) = mw_window_size mw" "mw_num_windows (mw_add T r mw) = mw_num_windows mw"
  "mw_window_size (fst (mw_expire T now mw)) = mw_window_size mw"
  "mw_num_windows (fst (mw_expire T now mw)) = mw_num_windows mw"
  "mw_window_size (new_map_window ws n) = ws" "mw_num_windows (new_map_window ws n) = n"
  by (simp_all add: mw_add_def mw_expire_def new_map_window_def Let_def split: prod.splits)

lemma mw_expire_loop_step:
  "mw_expire_loop T now ((a, w) # ws) (d, n) =
     mw_expire_loop T now ws
       (if snd (window_expire T (now a) w) \<le> 0 then AList.delete a d
        else AList.update a (fst (window_expire T (now a) w)) d, i64 (n + snd (window_expire T (now a) w)))"
  by (simp split: prod.splits)

lemma mw_expire_loop_distinct:
  "distinct (map fst d) \<Longrightarrow> distinct (map fst (fst (mw_expire_loop T now ws (d, n))))"
proof (induction ws arbitrary: d n)
  case Nil
  then show ?case by simp
next
  case (Cons e ws)
  then show ?case
    by (cases e) (simp add: mw_expire_loop_step AList.distinct_delete AList.distinct_update
        del: mw_expire_loop.simps)
qed

lemma mw_expire_loop_map_of:
  "distinct (map fst ws) \<Longrightarrow>
    map_of (fst (mw_expire_loop T now ws (d, n))) k =
      (case map_of ws k of
         None \<Rightarrow> map_of d k
       | Some w \<Rightarrow> if snd (window_expire T (now k) w) \<le> 0 then None else Some (fst (window_expire T (now k) w)))"
proof (induction ws arbitrary: d n)
  case Nil
  then show ?case by simp
next
  case (Cons e ws)
  obtain a w where e: "e = (a, w)" by force
  from Cons.prems have ws: "distinct (map fst ws)" and a: "map_of ws a = None"
    by (auto simp: e map_of_eq_None_iff)
  show ?case
    unfolding e mw_expire_loop_step Cons.IH [OF ws] using a
    by (auto simp: delete_conv' update_conv' split: option.splits)
qed

context window_store
begin

lemma mw_add_rep:
  assumes "mw_rep T mw R"
  shows "mw_rep T (mw_add T req mw) (add_mset (rq_agent req, rq_time req) R)"
proof -
  let ?a = "rq_agent req" and ?t = "rq_time req"
  let ?new = "new_window T (mw_window_size mw) (mw_num_windows mw)"
  let ?w = "case map_of (mw_data mw) ?a of None \<Rightarrow> ?new | Some w \<Rightarrow> w"
  have old: "win_rep T ?w (agent_times R ?a) \<and> w_size ?w = mw_window_size mw \<and> w_num ?w = mw_num_windows mw"
  proof (cases "map_of (mw_data mw) ?a")
    case None
    then show ?thesis using mw_rep_None [OF assms None] new_window_rep by simp
  next
    case (Some w)
    then show ?thesis using mw_rep_Some [OF assms Some] by simp
  qed
  have map: "map_of (mw_data (mw_add T req mw)) = (map_of (mw_data mw))(?a \<mapsto> window_add T ?t ?w)"
    by (auto simp: mw_add_def Let_def update_conv' split: option.splits)
  have dist: "distinct (map fst (mw_data (mw_add T req mw)))"
    using mw_rep_distinct [OF assms]
    by (simp add: mw_add_def Let_def AList.distinct_update split: option.splits)
  show ?thesis
    using old window_add_rep [of ?w "agent_times R ?a" ?t] mw_rep_None [OF assms] mw_rep_Some [OF assms]
    by (intro mw_repI dist) (auto simp: map split: if_splits)
qed

lemma mw_expire_rep:
  assumes "mw_rep T mw R"
  shows "mw_rep T (fst (mw_expire T now mw)) (mw_live (mw_window_size mw) (mw_num_windows mw) now R)"
proof -
  let ?ws = "mw_window_size mw" and ?n = "mw_num_windows mw"
  have dist: "distinct (map fst (mw_data mw))" using assms by (simp add: mw_rep_def)
  note loop = mw_expire_loop_distinct [OF dist, of T now "mw_data mw" 0]
    mw_expire_loop_map_of [OF dist, of T now "mw_data mw" 0]
  have data: "mw_data (fst (mw_expire T now mw)) = fst (mw_expire_loop T now (mw_data mw) (mw_data mw, 0))"
    by (simp add: mw_expire_def split: prod.splits)
  show ?thesis
  proof (rule mw_repI)
    show "distinct (map fst (mw_data (fst (mw_expire T now mw))))"
      using loop(1) by (simp add: data)
  next
    fix k assume k: "map_of (mw_data (fst (mw_expire T now mw))) k = None"
    show "agent_times (mw_live ?ws ?n now R) k = {#}"
    proof (cases "map_of (mw_data mw) k")
      case None
      with mw_rep_None [OF assms] show ?thesis by (simp add: agent_times_live live_from_def)
    next
      case (Some w)
      note w = mw_rep_Some [OF assms Some]
      from k Some have "snd (window_expire T (now k) w) \<le> 0"
        by (simp add: data loop(2) split: if_splits)
      with w show ?thesis by (simp add: expire_size_rep [of w "agent_times R k"] agent_times_live)
    qed
  next
    fix k w' assume k: "map_of (mw_data (fst (mw_expire T now mw))) k = Some w'"
    then obtain w where w: "map_of (mw_data mw) k = Some w" and w': "w' = fst (window_expire T (now k) w)"
      by (auto simp: data loop(2) split: option.splits if_splits simp del: map_of_eq_Some_iff)
    with mw_rep_Some [OF assms w] window_expire_rep [of w "agent_times R k" "now k"]
    show "win_rep T w' (agent_times (mw_live ?ws ?n now R) k) \<and>
        w_size w' = mw_window_size (fst (mw_expire T now mw)) \<and> w_num w' = mw_num_windows (fst (mw_expire T now mw))"
      by (simp add: agent_times_live)
  qed
qed

lemma mw_total_rep:
  assumes "mw_rep T mw R"
  shows "mw_total T mw = i64 (int (size R))"
proof -
  let ?d = "mw_data mw"
  have dist: "distinct (map fst ?d)" using assms by (simp add: mw_rep_def)
  have val: "window_count T (the (map_of ?d k)) = i64 (int (size (agent_times R k)))"
    if k: "k \<in> set (map fst ?d)" for k
  proof -
    obtain w where w: "map_of ?d k = Some w" using k by (metis map_of_eq_None_iff not_None_eq set_map)
    from mw_rep_Some [OF assms w] w show ?thesis by (simp add: window_count_rep)
  qed
  have "mw_total T mw = foldl (\<lambda>total v. i64 (total + v)) 0 (map (\<lambda>(k, w). window_count T w) ?d)"
    by (simp add: mw_total_def foldl_map case_prod_unfold)
  then have sum: "mw_total T mw = i64 (sum_list (map (window_count T \<circ> snd) ?d))"
    using i64_sum_eq by (simp add: i64_sum_def case_prod_unfold comp_def)
  have "map (window_count T \<circ> snd) ?d = map (\<lambda>k. window_count T (the (map_of ?d k))) (map fst ?d)"
    using dist by (auto simp: map_of_is_SomeI)
  then have "mw_total T mw = i64 (sum_list (map (\<lambda>k. window_count T (the (map_of ?d k))) (map fst ?d)))"
    by (simp only: sum)
  also have "\<dots> = i64 (\<Sum>k \<in> set (map fst ?d). window_count T (the (map_of ?d k)))"
    using dist by (simp only: sum_list_distinct_conv_sum_set)
  also have "\<dots> = i64 (\<Sum>k \<in> set (map fst ?d). int (size (agent_times R k)))"
    by (rule i64_sum_cong) (auto simp: val simp del: set_map)
  also have "(\<Sum>k \<in> set (map fst ?d). int (size (agent_times R k))) = int (size R)"
    using size_agent_times [OF _ mw_rep_keys [OF assms]] by (simp flip: of_nat_sum)
  finally show ?thesis .
qed

end

section \<open>Properties\<close>

text \<open>
  \<open>Add\<close> puts the request in front and keeps the most recent ones up to the bound: a list that is
  within its bound stays within it.
\<close>

theorem rw_add_bounded:
  assumes "0 \<le> rw_max_size rw" and "rw_len rw \<le> rw_max_size rw"
  shows "rw_data (rw_add r rw) = take (nat (rw_max_size rw)) (r # rw_data rw) \<and>
    rw_len (rw_add r rw) \<le> rw_max_size rw"
proof (cases "int (length (r # rw_data rw)) > rw_max_size rw")
  case True
  then have "nat (rw_max_size rw) = length (rw_data rw)" using assms by (simp add: rw_len_def)
  with True assms show ?thesis by (simp add: rw_add_def rw_len_def Let_def butlast_conv_take)
next
  case False
  with assms show ?thesis by (simp add: rw_add_def rw_len_def Let_def)
qed

text \<open>
  On a list whose times ascend from the back, \<open>Expire\<close> removes exactly the requests that are older than
  the time to live, and says how many are left.
\<close>

theorem rw_expire_exact:
  assumes "sorted_wrt (\<ge>) (map rq_time (rw_data rw))"
  shows "rw_data (fst (rw_expire now rw)) = filter (\<lambda>r. time_sub now (rq_time r) \<le> rw_ttl rw) (rw_data rw) \<and>
    snd (rw_expire now rw) = rw_len (fst (rw_expire now rw))"
proof -
  have mono: "time_sub now a \<le> time_sub now b" if "b \<le> a" for a b
    using that by (auto simp: time_sub_def)
  have "sorted_wrt (\<lambda>a b. \<not> time_sub now (rq_time b) \<le> rw_ttl rw \<longrightarrow> \<not> time_sub now (rq_time a) \<le> rw_ttl rw) (rev (rw_data rw))"
    unfolding sorted_wrt_rev using assms [unfolded sorted_wrt_map]
    by (rule sorted_wrt_mono_rel [rotated]) (use mono in force)
  from dropWhile_sorted_filter [OF this] show ?thesis
    by (simp add: rw_expire_data rw_expire_size rev_filter [symmetric])
qed

text \<open>A run of \<open>Add\<close> and \<open>Expire\<close> on the windows per user agent, and on what they should count.\<close>

datatype mw_event = AddedReq request | ExpiredAt "string \<Rightarrow> time"

fun mw_run :: "(int, int, 'm) treemap_api \<Rightarrow> mw_event list \<Rightarrow> 'm map_window \<Rightarrow> 'm map_window" where
  "mw_run T [] mw = mw"
| "mw_run T (AddedReq r # es) mw = mw_run T es (mw_add T r mw)"
| "mw_run T (ExpiredAt now # es) mw = mw_run T es (fst (mw_expire T now mw))"

fun mw_live_run :: "duration \<Rightarrow> int \<Rightarrow> mw_event list \<Rightarrow> (string \<times> time) multiset \<Rightarrow> (string \<times> time) multiset" where
  "mw_live_run ws n [] R = R"
| "mw_live_run ws n (AddedReq r # es) R = mw_live_run ws n es (add_mset (rq_agent r, rq_time r) R)"
| "mw_live_run ws n (ExpiredAt now # es) R = mw_live_run ws n es (mw_live ws n now R)"

context window_store
begin

lemma mw_run_rep:
  "mw_rep T mw R \<Longrightarrow> mw_rep T (mw_run T es mw) (mw_live_run (mw_window_size mw) (mw_num_windows mw) es R)"
proof (induction es arbitrary: mw R)
  case Nil
  then show ?case by simp
next
  case (Cons e es)
  show ?case
  proof (cases e)
    case (AddedReq r)
    with Cons.IH [OF mw_add_rep [OF Cons.prems, of r]] show ?thesis by simp
  next
    case (ExpiredAt now)
    with Cons.IH [OF mw_expire_rep [OF Cons.prems, of now]] show ?thesis by simp
  qed
qed

end

text \<open>
  The windows per user agent count every request that has not expired once: after any run, \<open>Total\<close> is
  their number, and an agent without requests has no window.
\<close>

theorem mw_run_counts:
  assumes "window_store T"
  shows "mw_total T (mw_run T es (new_map_window ws n)) = i64 (int (size (mw_live_run ws n es {#}))) \<and>
    fst ` set_mset (mw_live_run ws n es {#}) \<subseteq> set (map fst (mw_data (mw_run T es (new_map_window ws n))))"
proof -
  have "mw_rep T (mw_run T es (new_map_window ws n)) (mw_live_run ws n es {#})"
    using window_store.mw_run_rep [OF assms new_map_window_rep [of T ws n], of es] by simp
  then show ?thesis using window_store.mw_total_rep [OF assms] mw_rep_keys by blast
qed

definition wit_req :: "string \<Rightarrow> time \<Rightarrow> request" where
  "wit_req url t = \<lparr>rq_url = url, rq_host = ''example.org'', rq_agent = ''curl'', rq_source = ''10.1.2.3'',
     rq_method = ''GET'', rq_seq = 1, rq_timestamp = t, rq_time = t, rq_asn = None, rq_is_app = False\<rparr>"

definition wit_window :: requests_window where
  "wit_window = \<lparr>rw_data = [wit_req ''/b'' 20, wit_req ''/a'' 10], rw_max_size = 2, rw_ttl = 15\<rparr>"

lemma rw_add_bounded_witness: "rw_data (rw_add (wit_req ''/c'' 30) wit_window) = [wit_req ''/c'' 30, wit_req ''/b'' 20]"
  using rw_add_bounded [of wit_window "wit_req ''/c'' 30"] by (simp add: wit_window_def rw_len_def)

lemma rw_expire_exact_witness: "rw_data (fst (rw_expire 30 wit_window)) = [wit_req ''/b'' 20]"
  using rw_expire_exact [of wit_window 30] by (simp add: wit_window_def wit_req_def time_sub_def)

lemma mw_run_counts_witness:
  "mw_total rbt_api (mw_run rbt_api [AddedReq (wit_req ''/a'' 5), AddedReq (wit_req ''/b'' 7)] (new_map_window 10 2)) = 2"
  using mw_run_counts [OF rbt_win.window_store_axioms, of "[AddedReq (wit_req ''/a'' 5), AddedReq (wit_req ''/b'' 7)]" 10 2]
  by (simp add: wit_req_def i64_def)

end
