(* ===== verification/Requests.thy ===== *)
theory Requests
  imports RequestWindows
begin

text \<open>
  \<^verbatim>\<open>requests.go\<close>: all the requests of one address, counted in three rolling windows (all, app, other),
  per user agent, and kept as a list of the latest. \<open>Add\<close> sends the new statistics on the update channel.

  Every call of \<open>time.Now\<close> is an argument: an \<open>expire_clock\<close> holds the readings of one \<open>Expire\<close>, in
  program order. The three windows are expired one after the other, each at its own reading, so their
  counts need not add up exactly; the invariant \<open>req_inv\<close> says what holds nevertheless.
\<close>

section \<open>State and operations\<close>

record 'm requests =
  rs_ip :: ip
  rs_app :: "'m window"
  rs_other :: "'m window"
  rs_all :: "'m window"
  rs_agents :: "'m map_window"
  rs_latest :: requests_window
  rs_chan_is_closed :: bool
  rs_created_at :: time
  rs_expired_at :: time
  rs_window_size :: duration

definition new_requests :: "(int, int, 'm) treemap_api \<Rightarrow> time \<Rightarrow> time \<Rightarrow> ip \<Rightarrow> config \<Rightarrow> 'm requests" where
  "new_requests T created expired ip cfg =
     \<lparr>rs_ip = ip,
      rs_app = new_window T (cf_window_size cfg) (cf_num_windows cfg),
      rs_other = new_window T (cf_window_size cfg) (cf_num_windows cfg),
      rs_all = new_window T (cf_window_size cfg) (cf_num_windows cfg),
      rs_agents = new_map_window (cf_window_size cfg) (cf_num_windows cfg),
      rs_latest = new_requests_window (cf_keep_requests cfg) (cf_window_size cfg) (cf_num_windows cfg),
      rs_chan_is_closed = False,
      rs_created_at = created,
      rs_expired_at = expired,
      rs_window_size = cf_window_size cfg\<rparr>"

definition requests_total :: "(int, int, 'm) treemap_api \<Rightarrow> 'm requests \<Rightarrow> int" where
  "requests_total T r = window_count T (rs_all r)"

definition requests_app :: "(int, int, 'm) treemap_api \<Rightarrow> 'm requests \<Rightarrow> int" where
  "requests_app T r = window_count T (rs_app r)"

definition requests_other :: "(int, int, 'm) treemap_api \<Rightarrow> 'm requests \<Rightarrow> int" where
  "requests_other T r = window_count T (rs_other r)"

definition requests_can_expire :: "time \<Rightarrow> 'm requests \<Rightarrow> bool" where
  "requests_can_expire now r \<longleftrightarrow>
     time_sub now (rs_created_at r) > rs_window_size r \<and> time_sub now (rs_expired_at r) > rs_window_size r"

record expire_clock =
  ck_check :: time
  ck_all :: time
  ck_app :: time
  ck_other :: time
  ck_agents :: "string \<Rightarrow> time"
  ck_latest :: time
  ck_done :: time

definition requests_expire ::
  "(int, int, 'm) treemap_api \<Rightarrow> expire_clock \<Rightarrow> 'm requests \<Rightarrow> 'm requests \<times> int" where
  "requests_expire T ck r =
     (if \<not> requests_can_expire (ck_check ck) r then (r, rw_len (rs_latest r))
      else
        let (all, all_size) = window_expire T (ck_all ck) (rs_all r);
            (app, app_size) = window_expire T (ck_app ck) (rs_app r);
            (other, other_size) = window_expire T (ck_other ck) (rs_other r);
            (agents, ua_size) = mw_expire T (ck_agents ck) (rs_agents r);
            (latest, latest_size) = rw_expire (ck_latest ck) (rs_latest r);
            size = i64 (all_size + app_size + other_size + ua_size + latest_size)
        in (r\<lparr>rs_all := all, rs_app := app, rs_other := other, rs_agents := agents,
              rs_latest := latest, rs_expired_at := ck_done ck\<rparr>, size))"

text \<open>
  \<open>Add\<close>: expire, count the request, classify it by its URL, remember it, and send the statistics. Sending
  on a closed channel panics; the deferred function recovers and sets \<open>updateChanIsClosed\<close>. The result is
  the new state, the request with its \<open>IsApp\<close> mark, and the statistics sent.
\<close>

definition requests_add :: "(int, int, 'm) treemap_api \<Rightarrow> expire_clock \<Rightarrow> bool \<Rightarrow> request \<Rightarrow> 'm requests
    \<Rightarrow> 'm requests \<times> request \<times> ip_stats option" where
  "requests_add T ck chan_open req r =
     (let r1 = fst (requests_expire T ck r);
          r2 = r1\<lparr>rs_all := window_add T (rq_time req) (rs_all r1)\<rparr>;
          asset = asset_match (rq_url req);
          req' = req\<lparr>rq_is_app := \<not> asset\<rparr>;
          r3 = (if asset then r2\<lparr>rs_other := window_add T (rq_time req) (rs_other r2)\<rparr>
                else r2\<lparr>rs_app := window_add T (rq_time req) (rs_app r2)\<rparr>);
          r4 = r3\<lparr>rs_latest := rw_add req' (rs_latest r3), rs_agents := mw_add T req' (rs_agents r3)\<rparr>;
          total = window_count T (rs_all r4);
          app = window_count T (rs_app r4);
          other = window_count T (rs_other r4);
          ratio = (if total > 0 then ratio_of app total else Fin 0);
          stats = \<lparr>st_total = total, st_app = app, st_other = other, st_ratio = ratio, st_ips = 0,
                   st_asn = rq_asn req', is_ip = rs_ip r4, is_with_hostname = 0\<rparr>
      in if chan_open then (r4, req', Some stats)
         else (r4\<lparr>rs_chan_is_closed := True\<rparr>, req', None))"

text \<open>\<open>Ratio\<close> divides all requests by app requests; no component of the program calls it.\<close>

definition requests_ratio :: "(int, int, 'm) treemap_api \<Rightarrow> 'm requests \<Rightarrow> f64" where
  "requests_ratio T r = ratio_of (window_count T (rs_all r)) (window_count T (rs_app r))"

definition requests_latest :: "'m requests \<Rightarrow> request option list" where
  "requests_latest r = rw_requests (rs_latest r)"

definition requests_useragents :: "(int, int, 'm) treemap_api \<Rightarrow> 'm requests \<Rightarrow> (string \<rightharpoonup> int)" where
  "requests_useragents T r = mw_total_map T (rs_agents r)"

definition requests_total_stats :: "(int, int, 'm) treemap_api \<Rightarrow> 'm requests \<Rightarrow> (int \<rightharpoonup> int)" where
  "requests_total_stats T r = window_map T (rs_all r)"

definition requests_app_stats :: "(int, int, 'm) treemap_api \<Rightarrow> 'm requests \<Rightarrow> (int \<rightharpoonup> int)" where
  "requests_app_stats T r = window_map T (rs_app r)"

section \<open>The invariant between the windows\<close>

text \<open>
  A clock is in order when the readings of the three windows do not run backwards and the thresholds
  computed from them fit in 64 bits.
\<close>

definition clock_ok :: "duration \<Rightarrow> int \<Rightarrow> expire_clock \<Rightarrow> bool" where
  "clock_ok ws n ck \<longleftrightarrow> ck_all ck \<le> ck_app ck \<and> ck_all ck \<le> ck_other ck \<and>
     (\<forall>t \<in> {ck_all ck, ck_app ck, ck_other ck}. in64 (t + i64 (i64 (- 1 * ws) * n)))"

text \<open>
  \<open>A\<close>, \<open>B\<close> and \<open>C\<close> are the instants counted as app, as other and in all: what is counted as app or
  other is counted in all, and nothing is counted that was not added (\<open>N\<close> requests so far).
\<close>

definition req_inv :: "(int, int, 'm) treemap_api \<Rightarrow> nat \<Rightarrow> 'm requests \<Rightarrow> bool" where
  "req_inv T N r \<longleftrightarrow>
     (\<exists>A B C. win_rep T (rs_app r) A \<and> win_rep T (rs_other r) B \<and> win_rep T (rs_all r) C \<and>
        A + B \<subseteq># C \<and> size C \<le> N \<and>
        w_size (rs_app r) = w_size (rs_all r) \<and> w_size (rs_other r) = w_size (rs_all r) \<and>
        w_num (rs_app r) = w_num (rs_all r) \<and> w_num (rs_other r) = w_num (rs_all r))"

lemma live_from_mono: "th \<le> th' \<Longrightarrow> M \<subseteq># M' \<Longrightarrow> live_from ws th' M \<subseteq># live_from ws th M'"
  unfolding live_from_def
  by (rule subset_mset.order_trans [OF _ multiset_filter_mono])
     (auto intro!: filter_mset_mono_strong)

lemma req_invE:
  assumes "req_inv T N r"
  obtains A B C where "win_rep T (rs_app r) A" and "win_rep T (rs_other r) B" and "win_rep T (rs_all r) C"
    and "A + B \<subseteq># C" and "size C \<le> N"
    and "w_size (rs_app r) = w_size (rs_all r)" and "w_size (rs_other r) = w_size (rs_all r)"
    and "w_num (rs_app r) = w_num (rs_all r)" and "w_num (rs_other r) = w_num (rs_all r)"
  using assms unfolding req_inv_def by blast

lemma threshold_mono:
  assumes "t \<le> t'" and "in64 (t + i64 (i64 (- 1 * ws) * n))" and "in64 (t' + i64 (i64 (- 1 * ws) * n))"
  shows "window_threshold ws n t \<le> window_threshold ws n t'"
  using assms unfolding window_threshold_def unix_nano_def by (simp only: i64_id)

text \<open>The windows that \<open>Expire\<close> and \<open>Add\<close> leave behind.\<close>

lemma requests_expire_windows:
  assumes "requests_can_expire (ck_check ck) r"
  shows "rs_all (fst (requests_expire T ck r)) = fst (window_expire T (ck_all ck) (rs_all r))"
    and "rs_app (fst (requests_expire T ck r)) = fst (window_expire T (ck_app ck) (rs_app r))"
    and "rs_other (fst (requests_expire T ck r)) = fst (window_expire T (ck_other ck) (rs_other r))"
  using assms by (simp_all add: requests_expire_def Let_def split: prod.splits)

lemma requests_expire_sizes [simp]:
  "w_size (rs_all (fst (requests_expire T ck r))) = w_size (rs_all r)"
  "w_num (rs_all (fst (requests_expire T ck r))) = w_num (rs_all r)"
  "rs_window_size (fst (requests_expire T ck r)) = rs_window_size r"
  "rs_ip (fst (requests_expire T ck r)) = rs_ip r"
proof -
  show "w_size (rs_all (fst (requests_expire T ck r))) = w_size (rs_all r)"
    and "w_num (rs_all (fst (requests_expire T ck r))) = w_num (rs_all r)"
    using requests_expire_windows(1) [of ck r T] by (cases "requests_can_expire (ck_check ck) r"; simp add: requests_expire_def)+
  show "rs_window_size (fst (requests_expire T ck r)) = rs_window_size r"
    and "rs_ip (fst (requests_expire T ck r)) = rs_ip r"
    by (simp_all add: requests_expire_def Let_def split: prod.splits)
qed

lemma requests_add_sizes [simp]:
  "w_size (rs_all (fst (requests_add T ck ch q r))) = w_size (rs_all r)"
  "w_num (rs_all (fst (requests_add T ck ch q r))) = w_num (rs_all r)"
  "rs_window_size (fst (requests_add T ck ch q r)) = rs_window_size r"
  "rs_ip (fst (requests_add T ck ch q r)) = rs_ip r"
  by (simp_all add: requests_add_def Let_def)

lemma requests_add_windows:
  "rs_all (fst (requests_add T ck ch q r)) = window_add T (rq_time q) (rs_all (fst (requests_expire T ck r)))"
  "rs_app (fst (requests_add T ck ch q r)) =
     (if asset_match (rq_url q) then rs_app (fst (requests_expire T ck r))
      else window_add T (rq_time q) (rs_app (fst (requests_expire T ck r))))"
  "rs_other (fst (requests_add T ck ch q r)) =
     (if asset_match (rq_url q) then window_add T (rq_time q) (rs_other (fst (requests_expire T ck r)))
      else rs_other (fst (requests_expire T ck r)))"
  by (simp_all add: requests_add_def Let_def)

lemma requests_add_stats:
  assumes "snd (snd (requests_add T ck ch q r)) = Some st"
  shows "st_total st = requests_total T (fst (requests_add T ck ch q r))"
    and "st_app st = requests_app T (fst (requests_add T ck ch q r))"
    and "st_other st = requests_other T (fst (requests_add T ck ch q r))"
    and "st_ratio st = (if st_total st > 0 then ratio_of (st_app st) (st_total st) else Fin 0)"
    and "is_ip st = rs_ip r"
  using assms
  by (auto simp: requests_add_def Let_def requests_total_def requests_app_def requests_other_def
      split: if_splits)

context window_store
begin

lemma new_requests_inv: "req_inv T 0 (new_requests T t t' ip cfg)"
  unfolding req_inv_def
  by (intro exI [of _ "{#}"]) (simp add: new_requests_def new_window_rep)

lemma requests_expire_inv:
  assumes inv: "req_inv T N r" and ck: "clock_ok (w_size (rs_all r)) (w_num (rs_all r)) ck"
  shows "req_inv T N (fst (requests_expire T ck r))"
proof (cases "requests_can_expire (ck_check ck) r")
  case False
  with inv show ?thesis by (simp add: requests_expire_def)
next
  case True
  obtain A B C where reps: "win_rep T (rs_app r) A" "win_rep T (rs_other r) B" "win_rep T (rs_all r) C"
    and sub: "A + B \<subseteq># C" and N: "size C \<le> N"
    and sizes: "w_size (rs_app r) = w_size (rs_all r)" "w_size (rs_other r) = w_size (rs_all r)"
      "w_num (rs_app r) = w_num (rs_all r)" "w_num (rs_other r) = w_num (rs_all r)"
    using inv by (rule req_invE)
  let ?ws = "w_size (rs_all r)" and ?th = "window_threshold (w_size (rs_all r)) (w_num (rs_all r))"
  let ?A = "live_from ?ws (?th (ck_app ck)) A" and ?B = "live_from ?ws (?th (ck_other ck)) B"
  let ?C = "live_from ?ws (?th (ck_all ck)) C"
  have th: "?th (ck_all ck) \<le> ?th (ck_app ck)" "?th (ck_all ck) \<le> ?th (ck_other ck)"
    using ck by (auto simp: clock_ok_def intro!: threshold_mono)
  have "?A + ?B \<subseteq># live_from ?ws (?th (ck_all ck)) A + live_from ?ws (?th (ck_all ck)) B"
    using th by (intro subset_mset.add_mono live_from_mono) auto
  also have "\<dots> = live_from ?ws (?th (ck_all ck)) (A + B)"
    by (simp add: live_from_def)
  also have "\<dots> \<subseteq># ?C" using sub by (intro live_from_mono) auto
  finally have "?A + ?B \<subseteq># ?C" .
  moreover have "size ?C \<le> N"
    unfolding live_from_def using size_filter_mset_lesseq N by (rule order.trans)
  ultimately show ?thesis
    unfolding req_inv_def requests_expire_windows [OF True]
    using reps [THEN window_expire_rep] sizes
    by (intro exI [of _ ?A] exI [of _ ?B] exI [of _ ?C]) (simp add: window_expire_def Let_def)
qed

lemma requests_add_inv:
  assumes inv: "req_inv T N r" and ck: "clock_ok (w_size (rs_all r)) (w_num (rs_all r)) ck"
  shows "req_inv T (Suc N) (fst (requests_add T ck ch q r))"
proof -
  obtain A B C where reps: "win_rep T (rs_app (fst (requests_expire T ck r))) A"
      "win_rep T (rs_other (fst (requests_expire T ck r))) B" "win_rep T (rs_all (fst (requests_expire T ck r))) C"
    and sub: "A + B \<subseteq># C" "size C \<le> N"
    and sizes: "w_size (rs_app (fst (requests_expire T ck r))) = w_size (rs_all (fst (requests_expire T ck r)))"
      "w_size (rs_other (fst (requests_expire T ck r))) = w_size (rs_all (fst (requests_expire T ck r)))"
      "w_num (rs_app (fst (requests_expire T ck r))) = w_num (rs_all (fst (requests_expire T ck r)))"
      "w_num (rs_other (fst (requests_expire T ck r))) = w_num (rs_all (fst (requests_expire T ck r)))"
    using requests_expire_inv [OF inv ck] by (rule req_invE)
  let ?t = "rq_time q"
  let ?A = "if asset_match (rq_url q) then A else add_mset ?t A"
  let ?B = "if asset_match (rq_url q) then add_mset ?t B else B"
  have "?A + ?B \<subseteq># add_mset ?t C" and "size (add_mset ?t C) \<le> Suc N" using sub by auto
  then show ?thesis
    unfolding req_inv_def requests_add_windows
    using reps sizes window_add_rep
    by (intro exI [of _ ?A] exI [of _ ?B] exI [of _ "add_mset ?t C"]) auto
qed

lemma req_inv_counts:
  assumes "req_inv T N r" and "N < 2 ^ 63"
  shows "0 \<le> requests_app T r" and "0 \<le> requests_other T r"
    and "requests_app T r + requests_other T r \<le> requests_total T r" and "requests_total T r \<le> int N"
proof -
  obtain A B C where reps: "win_rep T (rs_app r) A" "win_rep T (rs_other r) B" "win_rep T (rs_all r) C"
    and sub: "A + B \<subseteq># C" and N: "size C \<le> N"
    using assms(1) by (rule req_invE)
  from sub have sz: "size A + size B \<le> size C" using size_mset_mono by fastforce
  have small: "i64 (int (size M)) = int (size M)" if "size M \<le> size C" for M :: "time multiset"
    using that N assms(2) by (intro i64_nonneg_id) auto
  have "requests_app T r = int (size A)" "requests_other T r = int (size B)" "requests_total T r = int (size C)"
    using sz by (auto simp: requests_app_def requests_other_def requests_total_def
        reps [THEN window_count_rep] intro!: small)
  with sz N show "0 \<le> requests_app T r" and "0 \<le> requests_other T r"
    and "requests_app T r + requests_other T r \<le> requests_total T r" and "requests_total T r \<le> int N"
    by simp_all
qed

end

text \<open>A run of \<open>Add\<close> calls on the requests of one address, and the statistics it sends.\<close>

fun requests_run :: "(int, int, 'm) treemap_api \<Rightarrow> (expire_clock \<times> bool \<times> request) list \<Rightarrow> 'm requests
    \<Rightarrow> ip_stats list \<times> 'm requests" where
  "requests_run T [] r = ([], r)"
| "requests_run T ((ck, ch, q) # es) r =
     (let (r', q', st) = requests_add T ck ch q r;
          (sts, r'') = requests_run T es r'
      in ((case st of None \<Rightarrow> sts | Some s \<Rightarrow> s # sts), r''))"

definition stats_ok :: "nat \<Rightarrow> ip_stats \<Rightarrow> bool" where
  "stats_ok N st \<longleftrightarrow> 0 \<le> st_app st \<and> 0 \<le> st_other st \<and> st_app st + st_other st \<le> st_total st \<and>
     st_total st \<le> int N \<and> Fin 0 \<le> st_ratio st \<and> st_ratio st \<le> Fin 1"

context window_store
begin

lemma requests_run_ok:
  assumes "req_inv T N r" and "N + length es < 2 ^ 53"
    and "\<And>e. e \<in> set es \<Longrightarrow> clock_ok (w_size (rs_all r)) (w_num (rs_all r)) (fst e)"
  shows "req_inv T (N + length es) (snd (requests_run T es r)) \<and>
    list_all (stats_ok (N + length es)) (fst (requests_run T es r))"
  using assms
proof (induction es arbitrary: N r)
  case Nil
  then show ?case by simp
next
  case (Cons e es)
  obtain ck ch q where e: "e = (ck, ch, q)" by (cases e) auto
  let ?r = "fst (requests_add T ck ch q r)"
  have inv: "req_inv T (Suc N) ?r"
    using Cons.prems(1) Cons.prems(3) [of e] by (intro requests_add_inv) (auto simp: e)
  have IH: "req_inv T (N + length (e # es)) (snd (requests_run T es ?r)) \<and>
      list_all (stats_ok (N + length (e # es))) (fst (requests_run T es ?r))"
    using Cons.IH [OF inv] Cons.prems by simp
  have small: "Suc N < 2 ^ 63" using Cons.prems(2) by simp
  have "stats_ok (N + length (e # es)) st" if st: "snd (snd (requests_add T ck ch q r)) = Some st" for st
  proof -
    note c = req_inv_counts [OF inv small] and s = requests_add_stats [OF st]
    have "Fin 0 \<le> st_ratio st \<and> st_ratio st \<le> Fin 1"
      using c s ratio_of_unit [of "st_app st" "st_total st"] Cons.prems(2) by auto
    with c s show ?thesis by (simp add: stats_ok_def)
  qed
  with IH show ?case
    by (auto simp: e Let_def split: prod.splits option.splits)
qed

end

section \<open>Properties\<close>


definition wit_run :: "(expire_clock \<times> bool \<times> request) list" where
  "wit_run = (let c = (\<lambda>t. \<lparr>ck_check = t, ck_all = t, ck_app = t, ck_other = t, ck_agents = (\<lambda>_. t), ck_latest = t, ck_done = t\<rparr>)
     in [(c 1000, True, wit_req ''/index.html'' 1000), (c 2000, True, wit_req ''/logo.png'' 2000)])"


end
