(* ===== verification/Store.thy ===== *)
theory Store
  imports Prelude Gods "HOL-Library.Sublist"
begin

text \<open>
  \<^verbatim>\<open>store/kvstore.go\<close> and \<^verbatim>\<open>store/badger.go\<close>: the key/value store. Badger itself is another package: its
  operations are the record \<open>badger_api\<close>, a parameter, and what its documentation promises is the locale
  \<open>badger\<close>. The methods of \<open>BadgerDB\<close> are defined over it, and the interface \<open>KVStore\<close> that the rest of
  the program relies on is the locale \<open>kvstore\<close>, which they implement.
\<close>

section \<open>Badger, the parameter\<close>

datatype store_error = NotFound | StoreError string

datatype bg_write = BgSet string string | BgSetTTL string string duration | BgDelete string

text \<open>
  \<open>bg_get\<close> is a View transaction that reads one key and its value; \<open>bg_items\<close> the items an iterator of a
  View transaction visits from the first key on, each with what reading its value gives; \<open>bg_update\<close> an
  Update transaction that makes the given writes one after the other. Each takes the time of the call,
  since entries expire.
\<close>

record 'db badger_api =
  bg_get :: "'db \<Rightarrow> time \<Rightarrow> string \<Rightarrow> store_error + string"
  bg_items :: "'db \<Rightarrow> time \<Rightarrow> store_error + (string \<times> (store_error + string)) list"
  bg_update :: "'db \<Rightarrow> time \<Rightarrow> bg_write list \<Rightarrow> store_error + 'db"

section \<open>The methods of BadgerDB\<close>

definition badger_get :: "'db badger_api \<Rightarrow> 'db \<Rightarrow> time \<Rightarrow> string \<Rightarrow> store_error + string" where
  "badger_get B db now key = bg_get B db now key"

definition badger_set :: "'db badger_api \<Rightarrow> 'db \<Rightarrow> time \<Rightarrow> string \<Rightarrow> string \<Rightarrow> store_error + 'db" where
  "badger_set B db now key value = bg_update B db now [BgSet key value]"

definition badger_setex :: "'db badger_api \<Rightarrow> 'db \<Rightarrow> time \<Rightarrow> string \<Rightarrow> string \<Rightarrow> duration \<Rightarrow> store_error + 'db" where
  "badger_setex B db now key value ttl = bg_update B db now [BgSetTTL key value ttl]"

text \<open>\<open>for it.Seek(prefix); it.ValidForPrefix(prefix); it.Next()\<close>\<close>

definition badger_scan :: "string \<Rightarrow> (string \<times> 'a) list \<Rightarrow> (string \<times> 'a) list" where
  "badger_scan p items = takeWhile (\<lambda>(k, _). prefix p k) (dropWhile (\<lambda>(k, _). k < p) items)"

definition badger_remove :: "'db badger_api \<Rightarrow> 'db \<Rightarrow> time \<Rightarrow> string \<Rightarrow> store_error + 'db" where
  "badger_remove B db now p =
     (case bg_items B db now of
        Inl err \<Rightarrow> Inl err
      | Inr items \<Rightarrow> bg_update B db now (map (BgDelete \<circ> fst) (badger_scan p items)))"

definition badger_has :: "'db badger_api \<Rightarrow> 'db \<Rightarrow> time \<Rightarrow> string \<Rightarrow> store_error + bool" where
  "badger_has B db now key =
     (case badger_get B db now key of
        Inl NotFound \<Rightarrow> Inr False
      | Inl err \<Rightarrow> Inl err
      | Inr _ \<Rightarrow> Inr True)"

text \<open>The loop of \<open>All\<close> appends every value and stops at the first value it cannot read.\<close>

fun append_values :: "(string \<times> (store_error + string)) list \<Rightarrow> string list \<Rightarrow> store_error + string list" where
  "append_values [] res = Inr res"
| "append_values ((k, Inl err) # items) res = Inl err"
| "append_values ((k, Inr v) # items) res = append_values items (res @ [v])"

definition badger_all :: "'db badger_api \<Rightarrow> 'db \<Rightarrow> time \<Rightarrow> string \<Rightarrow> store_error + string list" where
  "badger_all B db now p =
     (case bg_items B db now of Inl err \<Rightarrow> Inl err | Inr items \<Rightarrow> append_values (badger_scan p items) [])"

text \<open>
  \<open>Each\<close> calls back on every value: the values the callback is called on, in order, and the error.
\<close>

fun each_values :: "(string \<times> (store_error + string)) list \<Rightarrow> string list \<times> store_error option" where
  "each_values [] = ([], None)"
| "each_values ((k, Inl err) # items) = ([], Some err)"
| "each_values ((k, Inr v) # items) = (let (vs, err) = each_values items in (v # vs, err))"

definition badger_each :: "'db badger_api \<Rightarrow> 'db \<Rightarrow> time \<Rightarrow> string \<Rightarrow> string list \<times> store_error option" where
  "badger_each B db now p =
     (case bg_items B db now of Inl err \<Rightarrow> ([], Some err) | Inr items \<Rightarrow> each_values (badger_scan p items))"

definition badger_count :: "'db badger_api \<Rightarrow> 'db \<Rightarrow> time \<Rightarrow> string \<Rightarrow> int \<times> store_error option" where
  "badger_count B db now p =
     (case bg_items B db now of
        Inl err \<Rightarrow> (0, Some err)
      | Inr items \<Rightarrow> (foldl (\<lambda>c _. i64 (c + 1)) 0 (badger_scan p items), None))"

section \<open>The interface KVStore\<close>

record 'db kvstore_api =
  kv_get :: "'db \<Rightarrow> time \<Rightarrow> string \<Rightarrow> store_error + string"
  kv_setex :: "'db \<Rightarrow> time \<Rightarrow> string \<Rightarrow> string \<Rightarrow> duration \<Rightarrow> store_error + 'db"
  kv_set :: "'db \<Rightarrow> time \<Rightarrow> string \<Rightarrow> string \<Rightarrow> store_error + 'db"
  kv_has :: "'db \<Rightarrow> time \<Rightarrow> string \<Rightarrow> store_error + bool"
  kv_all :: "'db \<Rightarrow> time \<Rightarrow> string \<Rightarrow> store_error + string list"
  kv_count :: "'db \<Rightarrow> time \<Rightarrow> string \<Rightarrow> int \<times> store_error option"
  kv_remove :: "'db \<Rightarrow> time \<Rightarrow> string \<Rightarrow> store_error + 'db"
  kv_each :: "'db \<Rightarrow> time \<Rightarrow> string \<Rightarrow> string list \<times> store_error option"

definition badger_kv :: "'db badger_api \<Rightarrow> 'db kvstore_api" where
  "badger_kv B =
     \<lparr>kv_get = badger_get B, kv_setex = badger_setex B, kv_set = badger_set B, kv_has = badger_has B,
      kv_all = badger_all B, kv_count = badger_count B, kv_remove = badger_remove B, kv_each = badger_each B\<rparr>"

section \<open>Prefix scans in key order\<close>

lemma prefix_ge: "prefix p (k :: string) \<Longrightarrow> p \<le> k"
proof (induction p arbitrary: k)
  case Nil
  then show ?case by simp
next
  case (Cons a p)
  then show ?case by (cases k) auto
qed

lemma prefix_convex: "p \<le> k \<Longrightarrow> k \<le> k' \<Longrightarrow> prefix p (k' :: string) \<Longrightarrow> prefix p k"
proof (induction p arbitrary: k k')
  case Nil
  then show ?case by simp
next
  case (Cons a p)
  obtain l' where k': "k' = a # l'" and l': "prefix p l'" using Cons.prems(3) by (cases k') auto
  obtain b l where k: "k = b # l" using Cons.prems(1) by (cases k) auto
  from Cons.prems k k' have "b = a" by auto
  with Cons k k' l' show ?case by auto
qed

lemma badger_scan_filter:
  assumes "sorted_wrt (<) (map fst items)"
  shows "badger_scan p items = filter (\<lambda>(k, _). prefix p k) items"
  using assms
proof (induction items)
  case Nil
  then show ?case by (simp add: badger_scan_def)
next
  case (Cons e items)
  obtain k v where e: "e = (k, v)" by force
  from Cons.prems have IH: "badger_scan p items = filter (\<lambda>(k, _). prefix p k) items"
    and gt: "\<forall>k' \<in> set (map fst items). k < k'" by (auto intro: Cons.IH simp: e)
  show ?case
  proof (cases "k < p")
    case True
    then have "\<not> prefix p k" using prefix_ge by force
    with True IH show ?thesis by (simp add: badger_scan_def e)
  next
    case False
    have later: "\<not> k' < p" if "(k', v') \<in> set items" for k' v'
      using that gt False by force
    then have drop: "dropWhile (\<lambda>(k, _). k < p) items = items"
      by (cases items) auto
    show ?thesis
    proof (cases "prefix p k")
      case True
      with False IH drop show ?thesis by (simp add: badger_scan_def e)
    next
      case no: False
      have "\<not> prefix p k'" if "(k', v') \<in> set items" for k' v'
      proof
        assume "prefix p k'"
        moreover have "k \<le> k'" using that gt by force
        ultimately have "prefix p k" using prefix_convex [of p k k'] False by simp
        with no show False ..
      qed
      then have "filter (\<lambda>(k, _). prefix p k) items = []" by (auto simp: filter_empty_conv)
      with False no show ?thesis by (simp add: badger_scan_def e)
    qed
  qed
qed

lemma append_values_ok:
  "append_values items res = Inr vs \<longleftrightarrow>
     (\<forall>(k, r) \<in> set items. \<not> isl r) \<and> vs = res @ map (projr \<circ> snd) items"
  by (induction items res rule: append_values.induct) auto

lemma count_loop: "foldl (\<lambda>c _. i64 (c + 1)) (i64 a) xs = i64 (a + int (length xs))"
  by (induction xs arbitrary: a) (simp_all add: add.assoc)

section \<open>The contracts\<close>

text \<open>
  What Badger promises, on its content as seen at a later time: \<open>content db t\<close> is what the database holds
  at time \<open>t\<close> if nothing more is written. Entries only ever expire by themselves; an entry with a time to
  live is there until one second before its end (Badger counts expiry in whole seconds) and gone from its
  end on; iterators run in key order.
\<close>

definition second :: duration where
  "second = 1000000000"

locale badger =
  fixes B :: "'db badger_api" and content :: "'db \<Rightarrow> time \<Rightarrow> string \<Rightarrow> string option"
  assumes bg_get_Inr: "bg_get B db now k = Inr v \<Longrightarrow> content db now k = Some v"
    and bg_get_NotFound: "bg_get B db now k = Inl NotFound \<Longrightarrow> content db now k = None"
    and bg_items_sorted: "bg_items B db now = Inr items \<Longrightarrow> sorted_wrt (<) (map fst items)"
    and bg_items_dom: "bg_items B db now = Inr items \<Longrightarrow> set (map fst items) = dom (content db now)"
    and bg_items_value: "bg_items B db now = Inr items \<Longrightarrow> (k, Inr v) \<in> set items \<Longrightarrow> content db now k = Some v"
    and bg_set_content: "bg_update B db now [BgSet k v] = Inr db' \<Longrightarrow> now \<le> t \<Longrightarrow>
      content db' t = (content db t)(k \<mapsto> v)"
    and bg_setex_other: "bg_update B db now [BgSetTTL k v ttl] = Inr db' \<Longrightarrow> now \<le> t \<Longrightarrow> j \<noteq> k \<Longrightarrow>
      content db' t j = content db t j"
    and bg_setex_live: "bg_update B db now [BgSetTTL k v ttl] = Inr db' \<Longrightarrow> now \<le> t \<Longrightarrow>
      t + second \<le> now + ttl \<Longrightarrow> content db' t k = Some v"
    and bg_setex_dead: "bg_update B db now [BgSetTTL k v ttl] = Inr db' \<Longrightarrow> now \<le> t \<Longrightarrow>
      now + ttl \<le> t \<Longrightarrow> content db' t k = None"
    and bg_setex_value: "bg_update B db now [BgSetTTL k v ttl] = Inr db' \<Longrightarrow> now \<le> t \<Longrightarrow>
      content db' t k = None \<or> content db' t k = Some v"
    and bg_delete_content: "bg_update B db now (map BgDelete ks) = Inr db' \<Longrightarrow> now \<le> t \<Longrightarrow>
      content db' t k = (if k \<in> set ks then None else content db t k)"
    and bg_expiry: "now \<le> t \<Longrightarrow> content db t k = Some v \<Longrightarrow> content db now k = Some v"

text \<open>The contract of the interface \<open>KVStore\<close>, as its users rely on it.\<close>

locale kvstore =
  fixes K :: "'db kvstore_api" and content :: "'db \<Rightarrow> time \<Rightarrow> string \<Rightarrow> string option"
  assumes get_Inr: "kv_get K db now k = Inr v \<Longrightarrow> content db now k = Some v"
    and get_NotFound: "kv_get K db now k = Inl NotFound \<Longrightarrow> content db now k = None"
    and setex_other: "kv_setex K db now k v ttl = Inr db' \<Longrightarrow> now \<le> t \<Longrightarrow> j \<noteq> k \<Longrightarrow>
      content db' t j = content db t j"
    and setex_live: "kv_setex K db now k v ttl = Inr db' \<Longrightarrow> now \<le> t \<Longrightarrow> t + second \<le> now + ttl \<Longrightarrow>
      content db' t k = Some v"
    and setex_dead: "kv_setex K db now k v ttl = Inr db' \<Longrightarrow> now \<le> t \<Longrightarrow> now + ttl \<le> t \<Longrightarrow>
      content db' t k = None"
    and setex_value: "kv_setex K db now k v ttl = Inr db' \<Longrightarrow> now \<le> t \<Longrightarrow>
      content db' t k = None \<or> content db' t k = Some v"
    and set_content: "kv_set K db now k v = Inr db' \<Longrightarrow> now \<le> t \<Longrightarrow> content db' t = (content db t)(k \<mapsto> v)"
    and has_Inr: "kv_has K db now k = Inr b \<Longrightarrow> b = (content db now k \<noteq> None)"
    and remove_content: "kv_remove K db now p = Inr db' \<Longrightarrow> now \<le> t \<Longrightarrow>
      content db' t k = (if prefix p k then None else content db t k)"
    and count_content: "kv_count K db now p = (c, None) \<Longrightarrow>
      c = i64 (int (card {k. prefix p k \<and> content db now k \<noteq> None}))"
    and all_content: "kv_all K db now p = Inr vs \<Longrightarrow>
      set vs = {v. \<exists>k. prefix p k \<and> content db now k = Some v}"
    and each_content: "kv_each K db now p = (vs, None) \<Longrightarrow>
      set vs = {v. \<exists>k. prefix p k \<and> content db now k = Some v}"
    and expiry: "now \<le> t \<Longrightarrow> content db t k = Some v \<Longrightarrow> content db now k = Some v"

text \<open>A lookup that is not answered by an error of the store.\<close>

definition answers :: "'db kvstore_api \<Rightarrow> 'db \<Rightarrow> time \<Rightarrow> string \<Rightarrow> bool" where
  "answers K db t key = (case kv_get K db t key of Inl (StoreError _) \<Rightarrow> False | _ \<Rightarrow> True)"

context kvstore
begin

lemma get_answers:
  "answers K db t key \<Longrightarrow> kv_get K db t key = (case content db t key of None \<Rightarrow> Inl NotFound | Some v \<Rightarrow> Inr v)"
  using get_Inr [of db t key] get_NotFound [of db t key]
  by (auto simp: answers_def split: sum.splits store_error.splits)

end

text \<open>The methods of \<open>BadgerDB\<close> keep the contract of \<open>KVStore\<close>.\<close>

lemma each_values_ok:
  "each_values items = (vs, None) \<longleftrightarrow>
     (\<forall>(k, r) \<in> set items. \<not> isl r) \<and> vs = map (projr \<circ> snd) items"
  by (induction items arbitrary: vs rule: each_values.induct) (auto simp: prod_eq_iff split_beta Let_def)

lemma each_values_append: "each_values items = (vs, None) \<longleftrightarrow> append_values items [] = Inr vs"
  by (simp add: each_values_ok append_values_ok)

context badger
begin

lemma scan_keys:
  assumes "bg_items B db now = Inr items"
  shows "set (map fst (badger_scan p items)) = {k. prefix p k \<and> content db now k \<noteq> None}"
  using bg_items_dom [OF assms] badger_scan_filter [OF bg_items_sorted [OF assms], of p]
  by (auto simp: dom_def image_iff) force+

lemma remove_keys:
  assumes "badger_remove B db now p = Inr db'" and "now \<le> t"
  shows "content db' t k = (if prefix p k then None else content db t k)"
proof -
  obtain items where items: "bg_items B db now = Inr items"
    and upd: "bg_update B db now (map BgDelete (map fst (badger_scan p items))) = Inr db'"
    using assms(1) by (auto simp: badger_remove_def split: sum.splits)
  have "content db t k = None" if "prefix p k" and "k \<notin> set (map fst (badger_scan p items))"
    using that bg_expiry [OF assms(2), of db k] unfolding scan_keys [OF items] by fastforce
  then show ?thesis
    using bg_delete_content [OF upd assms(2), of k] scan_keys [OF items, of p] by (auto split: if_splits)
qed

lemma values_content:
  assumes items: "bg_items B db now = Inr items" and vs: "append_values (badger_scan p items) [] = Inr vs"
  shows "set vs = {v. \<exists>k. prefix p k \<and> content db now k = Some v}"
proof -
  let ?s = "badger_scan p items"
  have ok: "\<forall>(k, r) \<in> set ?s. \<not> isl r" and vs': "vs = map (projr \<circ> snd) ?s"
    using vs by (auto simp: append_values_ok)
  have sub: "set ?s \<subseteq> set items"
    using badger_scan_filter [OF bg_items_sorted [OF items]] by auto
  show ?thesis
  proof (intro set_eqI iffI)
    fix v assume "v \<in> set vs"
    then obtain k r where kr: "(k, r) \<in> set ?s" "v = projr r" by (auto simp: vs')
    with ok have r: "r = Inr v" by (cases r) auto
    have "(k, Inr v) \<in> set items" using kr(1) sub unfolding r by blast
    then have "content db now k = Some v" by (rule bg_items_value [OF items])
    moreover have "k \<in> set (map fst ?s)" using kr by force
    then have "prefix p k" unfolding scan_keys [OF items] by simp
    ultimately show "v \<in> {v. \<exists>k. prefix p k \<and> content db now k = Some v}" by blast
  next
    fix v assume "v \<in> {v. \<exists>k. prefix p k \<and> content db now k = Some v}"
    then obtain k where k: "prefix p k" "content db now k = Some v" by blast
    then have "k \<in> set (map fst ?s)" unfolding scan_keys [OF items] by simp
    then obtain r where kr: "(k, r) \<in> set ?s" by auto
    with ok obtain w where w: "r = Inr w" by (cases r) auto
    with kr sub k have "w = v" using bg_items_value [OF items] by fastforce
    with kr w show "v \<in> set vs" by (force simp: vs')
  qed
qed

lemma scan_count:
  assumes "bg_items B db now = Inr items"
  shows "length (badger_scan p items) = card {k. prefix p k \<and> content db now k \<noteq> None}"
proof -
  have "distinct (map fst items)" using bg_items_sorted [OF assms] by (simp add: strict_sorted_iff)
  then have "distinct (map fst (badger_scan p items))"
    by (simp add: badger_scan_filter [OF bg_items_sorted [OF assms]] distinct_map_filter)
  then show ?thesis using distinct_card scan_keys [OF assms, of p] by (metis length_map)
qed

end

sublocale badger \<subseteq> kvstore "badger_kv B" content
proof unfold_locales
  fix db now k b assume "kv_has (badger_kv B) db now k = Inr b"
  then show "b = (content db now k \<noteq> None)"
    using bg_get_Inr [of db now k] bg_get_NotFound [of db now k]
    by (auto simp: badger_kv_def badger_has_def badger_get_def split: sum.splits store_error.splits)
next
  fix db now p c assume "kv_count (badger_kv B) db now p = (c, None)"
  then obtain items where items: "bg_items B db now = Inr items"
    and c: "c = foldl (\<lambda>c _. i64 (c + 1)) 0 (badger_scan p items)"
    by (auto simp: badger_kv_def badger_count_def split: sum.splits)
  have "c = i64 (int (length (badger_scan p items)))"
    using count_loop [of 0 "badger_scan p items"] by (simp add: c)
  then show "c = i64 (int (card {k. prefix p k \<and> content db now k \<noteq> None}))"
    by (simp only: scan_count [OF items])
next
  fix db now p vs assume "kv_each (badger_kv B) db now p = (vs, None)"
  then show "set vs = {v. \<exists>k. prefix p k \<and> content db now k = Some v}"
    using values_content by (simp add: badger_kv_def badger_each_def each_values_append split: sum.splits)
next
  fix db now p vs assume "kv_all (badger_kv B) db now p = Inr vs"
  then show "set vs = {v. \<exists>k. prefix p k \<and> content db now k = Some v}"
    using values_content by (simp add: badger_kv_def badger_all_def split: sum.splits)
next
  fix db now p db' t k assume "kv_remove (badger_kv B) db now p = Inr db'" and "now \<le> t"
  then show "content db' t k = (if prefix p k then None else content db t k)"
    using remove_keys by (simp add: badger_kv_def)
next
  fix db now k v ttl db' t assume "kv_setex (badger_kv B) db now k v ttl = Inr db'" and "now \<le> t"
  then show "content db' t k = None \<or> content db' t k = Some v"
    using bg_setex_value by (simp add: badger_kv_def badger_setex_def)
qed (auto simp: badger_kv_def badger_get_def badger_setex_def badger_set_def
    bg_get_Inr bg_get_NotFound bg_setex_other bg_setex_live bg_setex_dead bg_set_content
    intro: bg_expiry)

context badger
begin

lemma keeps_contract: "kvstore (badger_kv B) content"
  by unfold_locales

end

section \<open>An instance: the database in memory\<close>

text \<open>
  Keys in order in a red-black tree, each with its value and the second at which it expires; as in Badger,
  an entry is gone once the clock's whole second has reached it.
\<close>

type_synonym memdb = "(string, string \<times> int option) RBT.rbt"

definition mem_live :: "time \<Rightarrow> string \<times> int option \<Rightarrow> bool" where
  "mem_live now e = (case snd e of None \<Rightarrow> True | Some x \<Rightarrow> now div second < x)"

fun mem_write :: "time \<Rightarrow> bg_write \<Rightarrow> memdb \<Rightarrow> memdb" where
  "mem_write now (BgSet k v) db = RBT.insert k (v, None) db"
| "mem_write now (BgSetTTL k v ttl) db = RBT.insert k (v, Some ((now + ttl) div second)) db"
| "mem_write now (BgDelete k) db = RBT.delete k db"

definition mem_content :: "memdb \<Rightarrow> time \<Rightarrow> string \<Rightarrow> string option" where
  "mem_content db now k =
     (case RBT.lookup db k of None \<Rightarrow> None | Some e \<Rightarrow> if mem_live now e then Some (fst e) else None)"

definition mem_api :: "memdb badger_api" where
  "mem_api =
     \<lparr>bg_get = (\<lambda>db now k. case mem_content db now k of None \<Rightarrow> Inl NotFound | Some v \<Rightarrow> Inr v),
      bg_items = (\<lambda>db now. Inr (map (\<lambda>(k, e). (k, Inr (fst e))) (filter (\<lambda>(k, e). mem_live now e) (RBT.entries db)))),
      bg_update = (\<lambda>db now ws. Inr (fold (mem_write now) ws db))\<rparr>"

lemma mem_deletes: "RBT.lookup (fold (mem_write now) (map BgDelete ks) db) k =
    (if k \<in> set ks then None else RBT.lookup db k)"
  by (induction ks arbitrary: db) auto

lemma mem_expiry: "now \<le> t \<Longrightarrow> mem_content db t k = Some v \<Longrightarrow> mem_content db now k = Some v"
proof -
  assume "now \<le> t" and "mem_content db t k = Some v"
  moreover from \<open>now \<le> t\<close> have "now div second \<le> t div second" by (simp add: second_def zdiv_mono1)
  ultimately show ?thesis
    by (auto simp: mem_content_def mem_live_def split: option.splits if_splits)
qed

lemma mem_ttl_live: "t + second \<le> now + ttl \<Longrightarrow> t div second < (now + ttl) div second"
  by (simp add: second_def)

lemma mem_ttl_dead: "now + ttl \<le> t \<Longrightarrow> \<not> t div second < (now + ttl) div second"
  by (simp add: second_def zdiv_mono1 not_less)

lemma mem_items_keys:
  "map fst (map (\<lambda>(k, e). (k, Inr (fst e))) (filter (\<lambda>(k, e). mem_live now e) (RBT.entries db)))
   = map fst (filter (\<lambda>(k, e). mem_live now e) (RBT.entries db))"
  by (simp add: case_prod_unfold)

lemma mem_items_sorted: "sorted_wrt (<) (map fst (filter P (RBT.entries (db :: memdb))))"
  using rbt_entries_strict [of db] by (simp add: sorted_wrt_map sorted_wrt_filter)

lemma mem_items_dom:
  "set (map fst (filter (\<lambda>(k, e). mem_live now e) (RBT.entries db))) = dom (mem_content db now)"
  by (auto simp: dom_def mem_content_def RBT.lookup_in_tree [symmetric] image_iff split: option.splits)

interpretation mem: badger mem_api mem_content
proof unfold_locales
  fix db now items assume "bg_items mem_api db now = Inr items"
  then have items: "items = map (\<lambda>(k, e). (k, Inr (fst e))) (filter (\<lambda>(k, e). mem_live now e) (RBT.entries db))"
    by (simp add: mem_api_def)
  show "sorted_wrt (<) (map fst items)"
    unfolding items mem_items_keys by (rule mem_items_sorted)
  show "set (map fst items) = dom (mem_content db now)"
    unfolding items mem_items_keys by (rule mem_items_dom)
  show "(k, Inr v) \<in> set items \<Longrightarrow> mem_content db now k = Some v" for k v
    by (auto simp: items mem_content_def RBT.lookup_in_tree [symmetric])
next
  fix db now t k v assume "now \<le> t" and "mem_content db t k = Some v"
  then show "mem_content db now k = Some v" by (rule mem_expiry)
qed (auto simp: mem_api_def mem_content_def mem_live_def mem_deletes mem_ttl_live mem_ttl_dead
    fun_eq_iff split: option.splits if_splits)

text \<open>The store in memory behind the interface, and the rules that evaluate it.\<close>

named_theorems mem_simps

definition mem_kv :: "memdb kvstore_api" where
  "mem_kv = badger_kv mem_api"

lemma mem_kvstore: "kvstore mem_kv mem_content"
  unfolding mem_kv_def by (rule mem.kvstore_axioms)

lemma mem_kv_get [mem_simps]:
  "kv_get mem_kv db t k = (case mem_content db t k of None \<Rightarrow> Inl NotFound | Some v \<Rightarrow> Inr v)"
  by (simp add: mem_kv_def badger_kv_def badger_get_def mem_api_def)

lemma mem_kv_setex [mem_simps]:
  "kv_setex mem_kv db now k v ttl = Inr (RBT.insert k (v, Some ((now + ttl) div second)) db)"
  by (simp add: mem_kv_def badger_kv_def badger_setex_def mem_api_def)

lemma mem_kv_set [mem_simps]: "kv_set mem_kv db now k v = Inr (RBT.insert k (v, None) db)"
  by (simp add: mem_kv_def badger_kv_def badger_set_def mem_api_def)

lemma mem_kv_remove_ok: "\<not> isl (kv_remove mem_kv db now p)"
  by (simp add: mem_kv_def badger_kv_def badger_remove_def mem_api_def)

lemma mem_kv_each_ok: "snd (kv_each mem_kv db now p) = None"
proof -
  have "snd (each_values (map (\<lambda>(k, e). (k, Inr (fst e))) xs)) = None" for xs :: "(string \<times> string \<times> int option) list"
    by (induction xs) (auto simp: Let_def split: prod.splits)
  moreover have "badger_scan p (map (\<lambda>(k, e). (k, Inr (fst e) :: store_error + string)) xs) = map (\<lambda>(k, e). (k, Inr (fst e))) (badger_scan p xs)"
    for xs :: "(string \<times> string \<times> int option) list"
    by (simp add: badger_scan_def dropWhile_map takeWhile_map comp_def case_prod_unfold)
  ultimately show ?thesis
    by (simp add: mem_kv_def badger_kv_def badger_each_def mem_api_def)
qed

lemma mem_content_empty [mem_simps]: "mem_content RBT.empty t k = None"
  by (simp add: mem_content_def)

lemma mem_content_insert [mem_simps]:
  "mem_content (RBT.insert k e db) t j = (if j = k then (if mem_live t e then Some (fst e) else None) else mem_content db t j)"
  by (simp add: mem_content_def)

lemma mem_live_simps [mem_simps]: "mem_live t (v, None)" "mem_live t (v, Some x) \<longleftrightarrow> t div second < x"
  by (simp_all add: mem_live_def)

lemma rbt_entries_single: "RBT.entries (RBT.insert k v RBT.empty) = [(k :: 'a::linorder, v)]"
  by (simp add: RBT.entries.rep_eq RBT.insert.rep_eq RBT.empty.rep_eq RBT_Impl.rbt_insert_def
      RBT_Impl.rbt_insert_with_key_def)

lemma mem_kv_each_single [mem_simps]:
  "kv_each mem_kv (RBT.insert k e RBT.empty) now p = (if prefix p k \<and> mem_live now e then [fst e] else [], None)"
proof -
  have "badger_scan p [(k, Inr (fst e) :: store_error + string)] = (if prefix p k then [(k, Inr (fst e))] else [])"
    using badger_scan_filter [of "[(k, Inr (fst e) :: store_error + string)]" p] by simp
  moreover have "badger_scan p ([] :: (string \<times> (store_error + string)) list) = []"
    by (simp add: badger_scan_def)
  ultimately show ?thesis
    by (simp add: mem_kv_def badger_kv_def badger_each_def mem_api_def rbt_entries_single)
qed

lemma mem_answers: "answers mem_kv db t k"
  by (simp add: answers_def mem_simps split: option.splits)

section \<open>Properties\<close>

text \<open>
  C28: The methods of \<open>BadgerDB\<close> implement the interface \<open>KVStore\<close>: over a database that behaves as Badger
  documents, lookups, writes with and without a time to live, prefix scans, counts and prefix removals
  meet the contract the other components rely on.
\<close>

theorem badger_implements_kvstore:
  assumes "badger B content"
  shows "kvstore (badger_kv B) content"
  using badger.keeps_contract [OF assms] .

text \<open>
  \<open>Remove\<close>, although documented as removing a single entry, removes every entry whose key begins with
  its argument, and no other.
\<close>

theorem badger_remove_prefix:
  assumes "badger B content" and "badger_remove B db now p = Inr db'" and "now \<le> t"
  shows "content db' t k = (if prefix p k then None else content db t k)"
  using badger.remove_keys [OF assms] .

lemma badger_implements_kvstore_witness: "kvstore (badger_kv mem_api) mem_content"
  by (rule badger_implements_kvstore) (rule mem.badger_axioms)

lemma badger_remove_prefix_witness:
  "\<exists>db'. badger_remove mem_api (RBT.insert ''a1'' (''x'', None) RBT.empty) 0 ''a'' = Inr db' \<and>
     mem_content db' 0 ''a1'' = None"
proof -
  obtain db' where "badger_remove mem_api (RBT.insert ''a1'' (''x'', None) RBT.empty) 0 ''a'' = Inr db'"
    by (simp add: badger_remove_def mem_api_def)
  from badger_remove_prefix [OF mem.badger_axioms this order_refl, of "''a1''"] this show ?thesis by simp
qed

end
