(* ===== verification/Codec.thy ===== *)
theory Codec
  imports Store Types "HOL-Library.Countable"
begin

text \<open>
  \<open>encoding/json\<close> at one type: \<open>Marshal\<close> and \<open>Unmarshal\<close> are parameters of the operations that store
  values. The contract \<open>json_codec\<close> is the round trip on the values \<open>ok\<close> that JSON can carry (no NaN
  and no strings that are not UTF-8, for instance), and that a marshalled value is not empty.
\<close>

record 'a json_api =
  js_marshal :: "'a \<Rightarrow> store_error + string"
  js_unmarshal :: "string \<Rightarrow> store_error + 'a"

locale json_codec =
  fixes J :: "'a json_api" and ok :: "'a \<Rightarrow> bool"
  assumes marshal_ok: "ok v \<Longrightarrow> \<not> isl (js_marshal J v)"
    and round_trip: "ok v \<Longrightarrow> js_marshal J v = Inr s \<Longrightarrow> js_unmarshal J s = Inr v"
    and marshal_not_Nil: "js_marshal J v = Inr s \<Longrightarrow> s \<noteq> []"
begin

lemma marshal_Inr: "ok v \<Longrightarrow> \<exists>s. js_marshal J v = Inr s \<and> js_unmarshal J s = Inr v \<and> s \<noteq> []"
  using marshal_ok [of v] round_trip [of v] marshal_not_Nil [of v]
  by (cases "js_marshal J v") auto

end

text \<open>An instance at every countable type: a value is written as its number, in unary.\<close>

primrec unary :: "nat \<Rightarrow> string" where
  "unary 0 = ''.''"
| "unary (Suc n) = CHR ''1'' # unary n"

lemma length_unary [simp]: "length (unary n) = Suc n"
  by (induction n) auto

definition num_json :: "'a::countable json_api" where
  "num_json = \<lparr>js_marshal = (\<lambda>v. Inr (unary (to_nat v))), js_unmarshal = (\<lambda>s. Inr (from_nat (length s - 1)))\<rparr>"

interpretation num: json_codec "num_json :: 'a::countable json_api" "\<lambda>_. True"
proof unfold_locales
  fix v :: 'a and s
  assume "js_marshal num_json v = Inr s"
  then show "s \<noteq> []" by (auto simp: num_json_def dest: arg_cong [where f = length])
qed (auto simp: num_json_def)

end
