(* ===== verification/Net.thy ===== *)
theory Net
  imports Types
begin

text \<open>
  What the program uses of Go's packages \<open>fmt\<close>, \<open>strconv\<close> and \<open>net\<close>: decimal and hexadecimal printing,
  \<open>IP.String\<close>, \<open>IP.To4\<close>, \<open>ParseIP\<close>, \<open>ParseCIDR\<close>, and \<open>IPNet\<close> with \<open>String\<close> and \<open>Contains\<close>. The printed
  form of an address is the key under which the history and the block list keep it, so the lemmas are that
  printing is injective and that parsing inverts it.
\<close>

section \<open>Numbers\<close>

definition digit_char :: "nat \<Rightarrow> char" where
  "digit_char d = char_of (if d < 10 then 48 + d else 87 + d)"

fun show_base :: "nat \<Rightarrow> nat \<Rightarrow> string" where
  "show_base b n = (if b < 2 \<or> n < b then [digit_char n] else show_base b (n div b) @ [digit_char (n mod b)])"

declare show_base.simps [simp del]

definition show_nat :: "nat \<Rightarrow> string" where
  "show_nat n = show_base 10 n"

definition show_int :: "int \<Rightarrow> string" where
  "show_int i = (if i < 0 then CHR ''-'' # show_nat (nat (- i)) else show_nat (nat i))"

definition is_digit :: "char \<Rightarrow> bool" where
  "is_digit c \<longleftrightarrow> 48 \<le> (of_char c :: nat) \<and> (of_char c :: nat) \<le> 57"

definition digit_val :: "char \<Rightarrow> nat" where
  "digit_val c = (of_char c :: nat) - 48"

definition read_nat :: "string \<Rightarrow> nat" where
  "read_nat s = foldl (\<lambda>v c. v * 10 + digit_val c) 0 s"

lemma of_char_digit: "d < 10 \<Longrightarrow> (of_char (digit_char d) :: nat) = 48 + d"
  by (simp add: digit_char_def of_char_of)

lemma is_digit_char: "d < 10 \<Longrightarrow> is_digit (digit_char d)"
  by (simp add: is_digit_def of_char_digit)

lemma digit_val_char: "d < 10 \<Longrightarrow> digit_val (digit_char d) = d"
  by (simp add: digit_val_def of_char_digit)

lemma show_nat_simps:
  "show_nat n = (if n < 10 then [digit_char n] else show_nat (n div 10) @ [digit_char (n mod 10)])"
  by (simp add: show_nat_def show_base.simps [of 10 n])

lemma show_nat_digits: "\<forall>c \<in> set (show_nat n). is_digit c"
proof (induction n rule: less_induct)
  case (less n)
  show ?case
  proof (cases "n < 10")
    case True
    then show ?thesis by (subst show_nat_simps) (simp add: is_digit_char)
  next
    case False
    then have "n div 10 < n" by simp
    from less [OF this] False show ?thesis by (subst show_nat_simps) (auto simp: is_digit_char)
  qed
qed

lemma show_nat_not_Nil [simp]: "show_nat n \<noteq> []"
  by (subst show_nat_simps) simp

lemma read_show_nat [simp]: "read_nat (show_nat n) = n"
proof (induction n rule: less_induct)
  case (less n)
  show ?case
  proof (cases "n < 10")
    case True
    then show ?thesis by (subst show_nat_simps) (simp add: read_nat_def digit_val_char)
  next
    case False
    then have "read_nat (show_nat (n div 10)) = n div 10" by (intro less.IH) simp
    with False show ?thesis
      by (subst show_nat_simps) (simp add: read_nat_def digit_val_char)
  qed
qed

lemma show_nat_inj: "show_nat m = show_nat n \<longleftrightarrow> m = n"
  by (metis read_show_nat)

lemma digits_no_char: "\<not> is_digit c \<Longrightarrow> c \<notin> set (show_nat n)"
  using show_nat_digits by blast

lemma is_digit_minus: "\<not> is_digit (CHR ''-'')"
  by (simp add: is_digit_def)

lemma show_int_inj: "show_int i = show_int j \<longleftrightarrow> i = j"
proof -
  have minus: "CHR ''-'' # s \<noteq> show_nat n" for s n
    using digits_no_char [of "CHR ''-''" n] by (metis is_digit_minus list.set_intros(1))
  then show ?thesis
    using minus [symmetric] by (auto simp: show_int_def show_nat_inj)
qed

section \<open>Addresses\<close>

definition v4_prefix :: ip where
  "v4_prefix = replicate 10 0 @ [255, 255]"

text \<open>\<open>To4\<close>; the empty list is nil.\<close>

definition ip_to16 :: "ip \<Rightarrow> ip" where
  "ip_to16 ip = (if length ip = 4 then v4_prefix @ ip else if length ip = 16 then ip else [])"

definition ip_to4 :: "ip \<Rightarrow> ip" where
  "ip_to4 ip = (if length ip = 4 then ip
     else if length ip = 16 \<and> take 12 ip = v4_prefix then drop 12 ip else [])"

definition dotted :: "ip \<Rightarrow> string" where
  "dotted p = concat (map (\<lambda>i. (if i = 0 then [] else ''.'') @ show_nat (unat (p ! i))) [0..<4])"

definition hex_string :: "byte list \<Rightarrow> string" where
  "hex_string bs = concat (map (\<lambda>b. [digit_char (unat b div 16), digit_char (unat b mod 16)]) bs)"

text \<open>The eight groups of an IPv6 address, and the loop that looks for the longest run of zero groups.\<close>

definition ip_group :: "ip \<Rightarrow> nat \<Rightarrow> nat" where
  "ip_group p g = 256 * unat (p ! (2 * g)) + unat (p ! (2 * g + 1))"

fun zero_end :: "nat list \<Rightarrow> nat" where
  "zero_end [] = 0"
| "zero_end (g # gs) = (if g = 0 then Suc (zero_end gs) else 0)"

fun zero_run :: "nat \<Rightarrow> nat list \<Rightarrow> nat \<Rightarrow> nat \<times> nat \<Rightarrow> nat \<times> nat" where
  "zero_run 0 gs i best = best"
| "zero_run (Suc fuel) gs i (e0, len) =
     (if i \<ge> length gs then (e0, len)
      else let n = zero_end (drop i gs)
           in if n > len then zero_run fuel gs (i + n + 1) (i, n) else zero_run fuel gs (i + 1) (e0, len))"

fun print_groups :: "bool \<Rightarrow> nat list \<Rightarrow> string" where
  "print_groups colon [] = []"
| "print_groups colon (g # gs) = (if colon then '':'' else []) @ show_base 16 g @ print_groups True gs"

definition ip6_string :: "ip \<Rightarrow> string" where
  "ip6_string p =
     (let gs = map (ip_group p) [0..<8];
          (e0, n) = zero_run 8 gs 0 (0, 0)
      in if n \<le> 1 then print_groups False gs
         else print_groups False (take e0 gs) @ ''::'' @ print_groups False (drop (e0 + n) gs))"

definition ip_string :: "ip \<Rightarrow> string" where
  "ip_string ip =
     (if ip = [] then ''<nil>''
      else if ip_to4 ip \<noteq> [] then dotted (ip_to4 ip)
      else if length ip \<noteq> 16 then CHR ''?'' # hex_string ip
      else ip6_string ip)"

section \<open>Parsing addresses\<close>

text \<open>
  \<open>netip.ParseAddr\<close>: the loop over an IPv4 address keeps the fields read, the value and the number of digits
  of the current field, and the character before.
\<close>

fun parse_fields :: "string \<Rightarrow> nat list \<Rightarrow> nat \<Rightarrow> nat \<Rightarrow> nat list option" where
  "parse_fields [] vals val digs = (if length vals < 3 then None else Some (vals @ [val]))"
| "parse_fields (c # s) vals val digs =
     (if is_digit c then
        if digs = 1 \<and> val = 0 then None
        else let v = val * 10 + digit_val c in if v > 255 then None else parse_fields s vals v (Suc digs)
      else if c = CHR ''.'' then
        if digs = 0 \<or> s = [] then None
        else if length vals = 3 then None
        else parse_fields s (vals @ [val]) 0 0
      else None)"

definition parse_ipv4 :: "string \<Rightarrow> byte list option" where
  "parse_ipv4 s = map_option (map (\<lambda>n. of_nat n)) (parse_fields s [] 0 0)"

definition hex_val :: "char \<Rightarrow> nat option" where
  "hex_val c = (let n = (of_char c :: nat) in
     if 48 \<le> n \<and> n \<le> 57 then Some (n - 48)
     else if 97 \<le> n \<and> n \<le> 102 then Some (n - 87)
     else if 65 \<le> n \<and> n \<le> 70 then Some (n - 55) else None)"

text \<open>One group: its value, its number of digits and the rest.\<close>

fun parse_group :: "string \<Rightarrow> nat \<Rightarrow> nat \<Rightarrow> (nat \<times> nat \<times> string) option" where
  "parse_group [] acc off = Some (acc, off, [])"
| "parse_group (c # s) acc off =
     (case hex_val c of
        None \<Rightarrow> Some (acc, off, c # s)
      | Some v \<Rightarrow> if off > 3 then None else parse_group s (acc * 16 + v) (Suc off))"

text \<open>The loop over the groups: at most eight turns. The result is the bytes read and the place of \<open>::\<close>.\<close>

fun parse_groups :: "nat \<Rightarrow> string \<Rightarrow> byte list \<Rightarrow> nat option \<Rightarrow> (byte list \<times> nat option) option" where
  "parse_groups 0 s bs e = (if s = [] then Some (bs, e) else None)"
| "parse_groups (Suc fuel) s bs e =
     (case parse_group s 0 0 of
        None \<Rightarrow> None
      | Some (acc, off, rest) \<Rightarrow>
          if off = 0 then None
          else if rest \<noteq> [] \<and> hd rest = CHR ''.'' then
            if e = None \<and> length bs \<noteq> 12 then None
            else if length bs + 4 > 16 then None
            else map_option (\<lambda>v4. (bs @ v4, e)) (parse_ipv4 s)
          else
            let bs' = bs @ [of_nat (acc div 256), of_nat (acc mod 256)]
            in (case rest of
                  [] \<Rightarrow> Some (bs', e)
                | c # rest' \<Rightarrow>
                    if c \<noteq> CHR '':'' \<or> rest' = [] then None
                    else if hd rest' = CHR '':'' then
                      if e \<noteq> None then None
                      else if tl rest' = [] then Some (bs', Some (length bs'))
                      else parse_groups fuel (tl rest') bs' (Some (length bs'))
                    else parse_groups fuel rest' bs' e))"

definition parse_ipv6 :: "string \<Rightarrow> byte list option" where
  "parse_ipv6 s =
     (if s = ''::'' then Some (replicate 16 0)
      else let lead = (take 2 s = ''::'')
           in case parse_groups 8 (if lead then drop 2 s else s) [] (if lead then Some 0 else None) of
                None \<Rightarrow> None
              | Some (bs, e) \<Rightarrow>
                  if length bs < 16 then
                    (case e of None \<Rightarrow> None
                     | Some i \<Rightarrow> Some (take i bs @ replicate (16 - length bs) 0 @ drop i bs))
                  else if e \<noteq> None then None else Some bs)"

text \<open>
  \<open>ParseIP\<close>: the first of the characters \<open>.\<close>, \<open>:\<close> and \<open>%\<close> decides; addresses with a zone are refused.
  The result has 16 bytes, or is nil. \<open>parse_addr\<close> also says whether it was written as IPv4.
\<close>

definition parse_addr :: "string \<Rightarrow> (bool \<times> byte list) option" where
  "parse_addr s =
     (case dropWhile (\<lambda>c. c \<notin> {CHR ''.'', CHR '':'', CHR ''%''}) s of
        [] \<Rightarrow> None
      | c # _ \<Rightarrow>
          if c = CHR ''.'' then map_option (\<lambda>v4. (True, v4_prefix @ v4)) (parse_ipv4 s)
          else if c = CHR '':'' \<and> CHR ''%'' \<notin> set s then map_option (Pair False) (parse_ipv6 s)
          else None)"

definition parse_ip :: "string \<Rightarrow> ip" where
  "parse_ip s = (case parse_addr s of None \<Rightarrow> [] | Some (_, ip) \<Rightarrow> ip)"

section \<open>Networks\<close>

definition net_number_mask :: "ipnet \<Rightarrow> ip \<times> byte list" where
  "net_number_mask n =
     (let ip = (if ip_to4 (net_ip n) \<noteq> [] then ip_to4 (net_ip n) else net_ip n);
          m = net_mask n
      in if length ip \<noteq> 4 \<and> length ip \<noteq> 16 then ([], [])
         else if length m = 4 then (if length ip = 4 then (ip, m) else ([], []))
         else if length m = 16 then (if length ip = 4 then (ip, drop 12 m) else (ip, m))
         else ([], []))"

definition ipnet_contains :: "ipnet \<Rightarrow> ip \<Rightarrow> bool" where
  "ipnet_contains n ip0 =
     (let (nn, m) = net_number_mask n;
          ip = (if ip_to4 ip0 \<noteq> [] then ip_to4 ip0 else ip0)
      in length ip = length nn \<and> list_all (\<lambda>((a, b), c). and a c = and b c) (zip (zip nn ip) m))"

text \<open>\<open>simpleMaskLength\<close>: the number of leading ones, \<open>None\<close> when ones follow a zero.\<close>

fun mask_bits :: "bool list \<Rightarrow> nat option" where
  "mask_bits [] = Some 0"
| "mask_bits (True # bs) = map_option Suc (mask_bits bs)"
| "mask_bits (False # bs) = (if list_all Not bs then Some 0 else None)"

definition bits_of :: "byte list \<Rightarrow> bool list" where
  "bits_of m = concat (map (\<lambda>b. map (\<lambda>i. bit b (7 - i)) [0..<8]) m)"

definition ipnet_string :: "ipnet \<Rightarrow> string" where
  "ipnet_string n =
     (let (nn, m) = net_number_mask n
      in if nn = [] \<or> m = [] then ''<nil>''
         else case mask_bits (bits_of m) of
                None \<Rightarrow> ip_string nn @ ''/'' @ hex_string m
              | Some l \<Rightarrow> ip_string nn @ ''/'' @ show_nat l)"

text \<open>\<open>CIDRMask\<close> and \<open>ParseCIDR\<close>.\<close>

definition cidr_mask :: "nat \<Rightarrow> nat \<Rightarrow> byte list" where
  "cidr_mask ones len =
     map (\<lambda>i. if 8 * i + 8 \<le> ones then 255
              else if 8 * i < ones then of_nat (256 - 2 ^ (8 * i + 8 - ones)) else 0) [0..<len]"

definition mask_ip :: "byte list \<Rightarrow> byte list \<Rightarrow> byte list" where
  "mask_ip ip m = map (\<lambda>(a, b). and a b) (zip ip m)"

definition parse_cidr :: "string \<Rightarrow> ipnet option" where
  "parse_cidr s =
     (let addr = takeWhile (\<lambda>c. c \<noteq> CHR ''/'') s;
          rest = dropWhile (\<lambda>c. c \<noteq> CHR ''/'') s
      in if rest = [] then None
         else let mask = tl rest in
           case parse_addr addr of
             None \<Rightarrow> None
           | Some (v4, ip) \<Rightarrow>
               if mask = [] \<or> \<not> list_all is_digit mask \<or> read_nat mask > (if v4 then 32 else 128) then None
               else if v4 then
                 (let m = cidr_mask (read_nat mask) 4
                  in Some \<lparr>net_ip = mask_ip (drop 12 ip) m, net_mask = m\<rparr>)
               else
                 (let m = cidr_mask (read_nat mask) 16
                  in Some \<lparr>net_ip = mask_ip ip m, net_mask = m\<rparr>))"

text \<open>The rules that evaluate \<open>parse_cidr\<close> on a literal.\<close>

lemmas parse_groups_numeral = parse_groups.simps(2) [of "pred_numeral k" for k, folded numeral_eq_Suc]

lemmas parse_cidr_eval = parse_cidr_def parse_addr_def parse_ipv4_def parse_ipv6_def parse_groups_numeral
  is_digit_def digit_val_def read_nat_def hex_val_def Let_def

section \<open>Printing and parsing IPv4 addresses\<close>

lemma show_nat_byte:
  "n < 256 \<Longrightarrow> show_nat n =
     (if n < 10 then [digit_char n]
      else if n < 100 then [digit_char (n div 10), digit_char (n mod 10)]
      else [digit_char (n div 100), digit_char (n div 10 mod 10), digit_char (n mod 10)])"
proof -
  assume n: "n < 256"
  have d: "n div 10 div 10 = n div 100" by (simp flip: div_mult2_eq)
  from n have "n div 100 < 10" by simp
  then have "show_nat (n div 100) = [digit_char (n div 100)]"
    by (simp add: show_nat_simps [of "n div 100"])
  then show ?thesis
    by (auto simp add: show_nat_simps [of n] show_nat_simps [of "n div 10"] d)
qed

lemma parse_fields_digit:
  "d < 10 \<Longrightarrow> parse_fields (digit_char d # s) fs v k =
     (if k = 1 \<and> v = 0 then None else if v * 10 + d > 255 then None else parse_fields s fs (v * 10 + d) (Suc k))"
  by (simp add: is_digit_char digit_val_char Let_def)

lemma parse_fields_2:
  "a < 10 \<Longrightarrow> b < 10 \<Longrightarrow> 0 < a \<Longrightarrow>
     parse_fields (digit_char a # digit_char b # s) fs 0 0 = parse_fields s fs (a * 10 + b) 2"
  by (simp add: parse_fields_digit numeral_2_eq_2 del: parse_fields.simps)

lemma parse_fields_3:
  "a < 10 \<Longrightarrow> b < 10 \<Longrightarrow> c < 10 \<Longrightarrow> 0 < a \<Longrightarrow> (a * 10 + b) * 10 + c < 256 \<Longrightarrow>
     parse_fields (digit_char a # digit_char b # digit_char c # s) fs 0 0 =
     parse_fields s fs ((a * 10 + b) * 10 + c) 3"
  by (simp add: parse_fields_digit numeral_3_eq_3 del: parse_fields.simps)

lemma parse_fields_octet:
  assumes n: "n < 256"
  shows "parse_fields (show_nat n @ s) fs 0 0 = parse_fields s fs n (length (show_nat n))"
proof -
  consider "n < 10" | "10 \<le> n" "n < 100" | "100 \<le> n" by linarith
  then show ?thesis
  proof cases
    case 1
    then show ?thesis by (simp add: show_nat_byte parse_fields_digit del: parse_fields.simps)
  next
    case 2
    then have sh: "show_nat n = [digit_char (n div 10), digit_char (n mod 10)]" using n by (simp add: show_nat_byte)
    have lt: "n div 10 < 10" "n mod 10 < 10" "0 < n div 10" "n div 10 \<le> 255" using 2 by simp_all
    have v: "n div 10 * 10 + n mod 10 = n" by (rule div_mult_mod_eq)
    show ?thesis
      unfolding sh using parse_fields_2 [OF lt(1-3), of s fs, unfolded v] by (simp add: numeral_2_eq_2 del: parse_fields.simps)
  next
    case 3
    then have c: "\<not> n < 10" "\<not> n < 100" by simp_all
    have sh: "show_nat n = [digit_char (n div 100), digit_char (n div 10 mod 10), digit_char (n mod 10)]"
      unfolding show_nat_byte [OF n] if_not_P [OF c(1)] if_not_P [OF c(2)] ..
    have "n div 100 = n div 10 div 10" by (simp flip: div_mult2_eq)
    then have v: "(n div 100 * 10 + n div 10 mod 10) * 10 + n mod 10 = n"
      by (simp only: div_mult_mod_eq)
    have lt: "n div 100 < 10" "n div 10 mod 10 < 10" "n mod 10 < 10" "0 < n div 100" "n div 100 \<le> 255"
      using 3 n by simp_all
    show ?thesis
      unfolding sh using parse_fields_3 [OF lt(1-4), of s fs, unfolded v, OF n]
      by (simp add: numeral_3_eq_3 del: parse_fields.simps)
  qed
qed

lemma dotted_eq:
  "length p = 4 \<Longrightarrow> dotted p =
     show_nat (unat (p ! 0)) @ ''.'' @ show_nat (unat (p ! 1)) @ ''.'' @
     show_nat (unat (p ! 2)) @ ''.'' @ show_nat (unat (p ! 3))"
  by (simp add: dotted_def upt_rec numeral_eq_Suc)

lemma unat_byte: "unat (b :: byte) < 256"
  using unsigned_less [of b] by simp

lemma not_digit_dot: "\<not> is_digit (CHR ''.'')"
  by (simp add: is_digit_def)

lemma list4: "length p = 4 \<Longrightarrow> p = [p ! 0, p ! 1, p ! 2, p ! 3]"
  by (auto simp: numeral_eq_Suc length_Suc_conv)

lemma parse_ipv4_dotted:
  assumes p: "length p = 4"
  shows "parse_ipv4 (dotted p) = Some p"
proof -
  have "parse_fields (dotted p) [] 0 0 = Some (map unat p)"
    using list4 [OF p, THEN arg_cong [where f = "map unat"]]
    by (simp add: dotted_eq [OF p] parse_fields_octet unat_byte not_digit_dot
        parse_fields_octet [where s = "[]", simplified])
  then show ?thesis by (simp add: parse_ipv4_def comp_def)
qed

lemma dotted_first:
  assumes p: "length p = 4"
  shows "\<exists>s. dropWhile (\<lambda>c. c \<notin> {CHR ''.'', CHR '':'', CHR ''%''}) (dotted p) = CHR ''.'' # s"
proof -
  have no: "c \<notin> {CHR ''.'', CHR '':'', CHR ''%''}" if "c \<in> set (show_nat n)" for c n
    using that digits_no_char [of "CHR ''.''" n] digits_no_char [of "CHR '':''" n] digits_no_char [of "CHR ''%''" n]
    by (auto simp: is_digit_def)
  have "dropWhile (\<lambda>c. c \<notin> {CHR ''.'', CHR '':'', CHR ''%''}) (show_nat n @ CHR ''.'' # s) = CHR ''.'' # s" for n s
    using no by (subst dropWhile_append2) auto
  then show ?thesis by (simp add: dotted_eq [OF p])
qed

lemma parse_ip_dotted:
  assumes "length p = 4"
  shows "parse_ip (dotted p) = v4_prefix @ p"
proof -
  obtain s where "dropWhile (\<lambda>c. c \<notin> {CHR ''.'', CHR '':'', CHR ''%''}) (dotted p) = CHR ''.'' # s"
    using dotted_first [OF assms] by blast
  then show ?thesis by (simp add: parse_ip_def parse_addr_def parse_ipv4_dotted [OF assms])
qed

lemma ip_to4_prefix [simp]: "length p = 4 \<Longrightarrow> ip_to4 (v4_prefix @ p) = p"
  by (simp add: ip_to4_def v4_prefix_def)

lemma ip_string_v4: "ip_to4 ip \<noteq> [] \<Longrightarrow> ip_string ip = dotted (ip_to4 ip)"
  by (auto simp: ip_string_def ip_to4_def)

lemma ip_to4_length: "ip_to4 ip \<noteq> [] \<Longrightarrow> length (ip_to4 ip) = 4"
  by (auto simp: ip_to4_def split: if_splits)

text \<open>The printed form of an IPv4 address, and the address it stands for, determine each other.\<close>

lemma parse_ip_string_v4: "ip_to4 ip \<noteq> [] \<Longrightarrow> parse_ip (ip_string ip) = v4_prefix @ ip_to4 ip"
  by (simp add: ip_string_v4 parse_ip_dotted ip_to4_length)

lemma ip_string_v4_inj:
  assumes "ip_to4 a \<noteq> []" and "ip_to4 b \<noteq> []"
  shows "ip_string a = ip_string b \<longleftrightarrow> ip_to4 a = ip_to4 b"
  using assms by (metis append_same_eq ip_string_v4 parse_ip_string_v4 same_append_eq)

section \<open>The characters of a printed address\<close>

definition addr_char :: "char \<Rightarrow> bool" where
  "addr_char c \<longleftrightarrow> (let n = (of_char c :: nat) in 46 \<le> n \<and> n \<le> 63 \<or> 97 \<le> n \<and> n \<le> 122)"

lemma addr_char_digit: "d < 16 \<Longrightarrow> addr_char (digit_char d)"
  by (auto simp: addr_char_def digit_char_def of_char_of Let_def)

lemma addr_char_lits: "list_all addr_char ''.:<>?nil''"
  by code_simp

lemma show_base_chars: "2 \<le> b \<Longrightarrow> b \<le> 16 \<Longrightarrow> list_all addr_char (show_base b n)"
proof (induction b n rule: show_base.induct)
  case (1 b n)
  have "n mod b < 16" using 1(2,3) by (meson mod_less_divisor less_le_trans pos2)
  with 1 show ?case
    by (cases "n < b") (simp_all add: show_base.simps [of b n] addr_char_digit)
qed

lemma print_groups_chars: "list_all addr_char (print_groups colon gs)"
  by (induction colon gs rule: print_groups.induct) (use addr_char_lits in \<open>auto simp: show_base_chars\<close>)

lemma ip_string_chars: "list_all addr_char (ip_string ip)"
proof -
  have "list_all addr_char (dotted p)" for p
    using show_base_chars [of 10] addr_char_lits by (auto simp: dotted_def show_nat_def list_all_iff)
  moreover have "list_all addr_char (hex_string bs)" for bs
  proof -
    have "addr_char (digit_char (unat b div 16)) \<and> addr_char (digit_char (unat b mod 16))" for b :: byte
    proof -
      have "unat b < 2 ^ LENGTH(8)" by (rule unsigned_less)
      then show ?thesis by (simp add: addr_char_digit less_mult_imp_div_less)
    qed
    then show ?thesis by (simp add: hex_string_def list_all_iff)
  qed
  moreover have "list_all addr_char (ip6_string p)" for p
    using addr_char_lits by (auto simp: ip6_string_def Let_def print_groups_chars split: prod.splits)
  ultimately show ?thesis using addr_char_lits by (simp add: ip_string_def)
qed

end
