(* ===== verification/StatsWindows.thy ===== *)
theory StatsWindows
  imports Gods Codec Net
begin

text \<open>
  \<^verbatim>\<open>stats.go\<close>: the statistics of the decisions, in total and per time slice; when a slice is opened, the
  one before it is written to the store. \<open>sw_rep\<close> relates the state to the decisions it counts.
\<close>

section \<open>State and operations\<close>

datatype decision = IsBlocked | IsHuman | IsWhitelisted

record stat =
  sa_total :: int
  sa_whitelisted :: int
  sa_blocked :: int
  sa_human :: int
  sa_time :: time
  sa_updated_at :: time

text \<open>The zero value of the struct.\<close>

definition stat0 :: stat where
  "stat0 = \<lparr>sa_total = 0, sa_whitelisted = 0, sa_blocked = 0, sa_human = 0,
            sa_time = zero_time, sa_updated_at = zero_time\<rparr>"

record 'm stats_windows =
  sw_total :: stat
  sw_map :: 'm
  sw_window_size :: duration
  sw_num_windows :: int

text \<open>The anonymous struct that \<open>MarshalJSON\<close> and \<open>UnmarshalJSON\<close> go through; \<open>fmt\<close> is
  \<open>Format(RFC3339Nano)\<close> and \<open>parse\<close> its inverse.\<close>

record stat_json =
  sj_total :: int
  sj_whitelisted :: int
  sj_blocked :: int
  sj_human :: int
  sj_time :: string
  sj_updated_at :: string

definition stat_marshal :: "(time \<Rightarrow> string) \<Rightarrow> stat_json json_api \<Rightarrow> stat \<Rightarrow> store_error + string" where
  "stat_marshal fmt J s =
     js_marshal J \<lparr>sj_total = sa_total s, sj_whitelisted = sa_whitelisted s, sj_blocked = sa_blocked s,
       sj_human = sa_human s, sj_time = fmt (sa_time s), sj_updated_at = fmt (sa_time s)\<rparr>"

text \<open>
  \<open>UnmarshalJSON\<close> writes to the receiver as it goes: the result is the receiver and the error.
\<close>

definition stat_unmarshal :: "(string \<Rightarrow> store_error + time) \<Rightarrow> stat_json json_api \<Rightarrow> string \<Rightarrow> stat
    \<Rightarrow> stat \<times> store_error option" where
  "stat_unmarshal parse J bytes s =
     (case js_unmarshal J bytes of
        Inl err \<Rightarrow> (s, Some err)
      | Inr d \<Rightarrow>
          let s1 = s\<lparr>sa_total := sj_total d, sa_whitelisted := sj_whitelisted d,
                     sa_blocked := sj_blocked d, sa_human := sj_human d\<rparr>
          in case parse (sj_time d) of
               Inl err \<Rightarrow> (s1, Some err)
             | Inr t \<Rightarrow>
                 let s2 = s1\<lparr>sa_time := t\<rparr>
                 in case parse (sj_updated_at d) of
                      Inl err \<Rightarrow> (s2, Some err)
                    | Inr u \<Rightarrow> (s2\<lparr>sa_updated_at := u\<rparr>, None))"

definition new_stats_windows :: "(time, stat, 'm) treemap_api \<Rightarrow> config \<Rightarrow> 'm stats_windows" where
  "new_stats_windows T cfg =
     \<lparr>sw_total = stat0, sw_map = tm_new T, sw_window_size = cf_window_size cfg, sw_num_windows = cf_num_windows cfg\<rparr>"

definition sw_key :: "duration \<Rightarrow> time \<Rightarrow> time" where
  "sw_key ws t = time_truncate t ws"

text \<open>The switch of \<open>Add\<close>, on the totals and on the slice alike; every other decision counts as human.\<close>

fun count_decision :: "decision \<Rightarrow> stat \<Rightarrow> stat" where
  "count_decision IsBlocked s = s\<lparr>sa_blocked := i64 (sa_blocked s + 1)\<rparr>"
| "count_decision IsWhitelisted s = s\<lparr>sa_whitelisted := i64 (sa_whitelisted s + 1)\<rparr>"
| "count_decision IsHuman s = s\<lparr>sa_human := i64 (sa_human s + 1)\<rparr>"

definition count_total :: "stat \<Rightarrow> stat" where
  "count_total s = s\<lparr>sa_total := i64 (sa_total s + 1)\<rparr>"

definition stats_key :: "time \<Rightarrow> string" where
  "stats_key t = ''stats:'' @ show_int (unix_nano t)"

definition hours24 :: duration where
  "hours24 = 24 * 3600 * 1000000000"

text \<open>
  \<open>Add\<close>: when the slice is new and there are others, the latest one is written to the store first; if it
  cannot be marshalled, \<open>Add\<close> returns the error before anything is counted. The error of \<open>SetEx\<close> is
  dropped. \<open>marshal\<close> is \<open>json.Marshal\<close> on a \<open>Stats\<close>, which goes through \<open>stat_marshal\<close>; \<open>now1\<close> is the clock at the store's call, \<open>now2\<close> the one that becomes \<open>UpdatedAt\<close>.
\<close>

definition save_latest :: "(time, stat, 'm) treemap_api \<Rightarrow> 'db kvstore_api \<Rightarrow> (stat \<Rightarrow> store_error + string) \<Rightarrow> time
    \<Rightarrow> 'm stats_windows \<Rightarrow> 'db \<Rightarrow> store_error + 'db" where
  "save_latest T K marshal now sw db =
     (if tm_size T (sw_map sw) > 0 then
        case tm_max T (sw_map sw) of
          None \<Rightarrow> Inr db
        | Some (latest_key, latest_value) \<Rightarrow>
            (case marshal latest_value of
               Inl err \<Rightarrow> Inl err
             | Inr bytes \<Rightarrow>
                 (case kv_setex K db now (stats_key latest_key) bytes hours24 of
                    Inl _ \<Rightarrow> Inr db
                  | Inr db' \<Rightarrow> Inr db'))
      else Inr db)"

definition sw_add :: "(time, stat, 'm) treemap_api \<Rightarrow> 'db kvstore_api \<Rightarrow> (stat \<Rightarrow> store_error + string) \<Rightarrow> time
    \<Rightarrow> time \<Rightarrow> decision \<Rightarrow> time \<Rightarrow> 'm stats_windows \<Rightarrow> 'db \<Rightarrow> store_error + 'm stats_windows \<times> 'db" where
  "sw_add T K marshal now1 now2 d t sw db =
     (let k = sw_key (sw_window_size sw) t;
          slot = (case tm_get T (sw_map sw) k of
                    Some st \<Rightarrow> Inr (st, db)
                  | None \<Rightarrow>
                      (case save_latest T K marshal now1 sw db of
                         Inl err \<Rightarrow> Inl err
                       | Inr db' \<Rightarrow> Inr (stat0\<lparr>sa_time := time_truncate t (sw_window_size sw)\<rparr>, db')))
      in case slot of
           Inl err \<Rightarrow> Inl err
         | Inr (st, db') \<Rightarrow>
             let total' = count_total (count_decision d (sw_total sw));
                 st' = (count_total (count_decision d st))\<lparr>sa_updated_at := now2\<rparr>
             in Inr (sw\<lparr>sw_total := total', sw_map := tm_put T (sw_map sw) k st'\<rparr>, db'))"

definition sw_threshold :: "duration \<Rightarrow> int \<Rightarrow> time \<Rightarrow> time" where
  "sw_threshold ws n now = now + i64 (ws * i64 (- n))"

definition stat_sub :: "stat \<Rightarrow> stat \<Rightarrow> stat" where
  "stat_sub tot st = tot\<lparr>sa_total := i64 (sa_total tot - sa_total st),
     sa_blocked := i64 (sa_blocked tot - sa_blocked st), sa_human := i64 (sa_human tot - sa_human st),
     sa_whitelisted := i64 (sa_whitelisted tot - sa_whitelisted st)\<rparr>"

fun sw_expire_loop :: "(time, stat, 'm) treemap_api \<Rightarrow> time \<Rightarrow> (time \<times> stat) list \<Rightarrow> stat \<Rightarrow> 'm \<Rightarrow> stat \<times> 'm" where
  "sw_expire_loop T threshold [] tot m = (tot, m)"
| "sw_expire_loop T threshold ((key, st) # iter) tot m =
     (if key > threshold then (tot, m)
      else sw_expire_loop T threshold iter (stat_sub tot st) (tm_remove T m key))"

definition sw_expire :: "(time, stat, 'm) treemap_api \<Rightarrow> time \<Rightarrow> 'm stats_windows \<Rightarrow> 'm stats_windows" where
  "sw_expire T now sw =
     (let threshold = sw_threshold (sw_window_size sw) (sw_num_windows sw) now;
          (tot, m) = sw_expire_loop T threshold (tm_iter T (sw_map sw)) (sw_total sw) (sw_map sw)
      in sw\<lparr>sw_total := tot, sw_map := m\<rparr>)"

text \<open>\<open>All\<close>: the slices by the text of their start, \<open>fmt\<close> being \<open>Format(RFC3339Nano)\<close>.\<close>

definition sw_all :: "(time, stat, 'm) treemap_api \<Rightarrow> (time \<Rightarrow> string) \<Rightarrow> 'm stats_windows \<Rightarrow> (string \<rightharpoonup> stat)" where
  "sw_all T fmt sw = foldl (\<lambda>res (key, st). res(fmt key \<mapsto> st)) Map.empty (tm_iter T (sw_map sw))"

section \<open>What the statistics count\<close>

text \<open>The abstract state is the multiset of the decisions counted, each with the instant of its request.\<close>

definition cnt :: "decision \<Rightarrow> (decision \<times> time) multiset \<Rightarrow> nat" where
  "cnt d D = size (filter_mset (\<lambda>p. fst p = d) D)"

definition slice :: "duration \<Rightarrow> time \<Rightarrow> (decision \<times> time) multiset \<Rightarrow> (decision \<times> time) multiset" where
  "slice ws k D = filter_mset (\<lambda>p. sw_key ws (snd p) = k) D"

definition stat_counts :: "stat \<Rightarrow> (decision \<times> time) multiset \<Rightarrow> bool" where
  "stat_counts st D \<longleftrightarrow> sa_total st = i64 (int (size D)) \<and> sa_blocked st = i64 (int (cnt IsBlocked D)) \<and>
     sa_whitelisted st = i64 (int (cnt IsWhitelisted D)) \<and> sa_human st = i64 (int (cnt IsHuman D))"

definition sw_rep :: "(time, stat, 'm) treemap_api \<Rightarrow> 'm stats_windows \<Rightarrow> (decision \<times> time) multiset \<Rightarrow> bool" where
  "sw_rep T sw D \<longleftrightarrow> stat_counts (sw_total sw) D \<and>
     (\<forall>k. case tm_get T (sw_map sw) k of
            None \<Rightarrow> slice (sw_window_size sw) k D = {#}
          | Some st \<Rightarrow> slice (sw_window_size sw) k D \<noteq> {#} \<and> stat_counts st (slice (sw_window_size sw) k D))"

definition sw_live :: "duration \<Rightarrow> time \<Rightarrow> (decision \<times> time) multiset \<Rightarrow> (decision \<times> time) multiset" where
  "sw_live ws threshold D = filter_mset (\<lambda>p. threshold < sw_key ws (snd p)) D"

lemma cnt_sum: "cnt IsBlocked D + cnt IsWhitelisted D + cnt IsHuman D = size D"
proof (induction D)
  case empty
  then show ?case by (simp add: cnt_def)
next
  case (add p D)
  then show ?case by (cases "fst p") (auto simp: cnt_def)
qed

lemma stat0_counts: "stat_counts stat0 {#}"
  by (simp add: stat_counts_def stat0_def cnt_def)

lemma stat_counts_updates [simp]:
  "stat_counts (st\<lparr>sa_time := t\<rparr>) D = stat_counts st D"
  "stat_counts (st\<lparr>sa_updated_at := t\<rparr>) D = stat_counts st D"
  by (simp_all add: stat_counts_def)

lemma count_counts: "stat_counts st D \<Longrightarrow> stat_counts (count_total (count_decision d st)) (add_mset (d, t) D)"
  by (cases d) (auto simp: stat_counts_def count_total_def cnt_def add.commute)

lemma i64_sub_counts: "b \<le> a \<Longrightarrow> i64 (i64 (int a) - i64 (int b)) = i64 (int (a - b))"
  by (simp add: of_nat_diff)

lemma cnt_diff: "B \<subseteq># D \<Longrightarrow> cnt d (D - B) = cnt d D - cnt d B \<and> cnt d B \<le> cnt d D"
  by (auto simp: cnt_def size_Diff_submset multiset_filter_mono size_mset_mono
      filter_diff_mset)

lemma sub_counts:
  assumes "stat_counts tot D" and "stat_counts st B" and "B \<subseteq># D"
  shows "stat_counts (stat_sub tot st) (D - B)"
  using assms cnt_diff [OF assms(3)] size_mset_mono [OF assms(3)]
  by (simp add: stat_counts_def stat_sub_def size_Diff_submset i64_sub_counts)

lemma slice_add [simp]:
  "slice ws k (add_mset (d, t) D) = (if sw_key ws t = k then add_mset (d, t) (slice ws k D) else slice ws k D)"
  by (simp add: slice_def)

lemma slice_live: "slice ws k (sw_live ws th D) = (if th < k then slice ws k D else {#})"
  by (induction D) (auto simp: slice_def sw_live_def)

lemma new_stats_windows_rep: "treemap T \<Longrightarrow> sw_rep T (new_stats_windows T cfg) {#}"
  by (simp add: sw_rep_def new_stats_windows_def stat0_counts treemap.get_new slice_def)

lemma sw_add_cases:
  assumes "sw_add T K marshal now1 now2 d t sw db = Inr (sw', db')"
  obtains st where "case tm_get T (sw_map sw) (sw_key (sw_window_size sw) t) of
        None \<Rightarrow> st = stat0\<lparr>sa_time := time_truncate t (sw_window_size sw)\<rparr> | Some s \<Rightarrow> st = s"
    and "sw' = sw\<lparr>sw_total := count_total (count_decision d (sw_total sw)),
       sw_map := tm_put T (sw_map sw) (sw_key (sw_window_size sw) t)
         ((count_total (count_decision d st))\<lparr>sa_updated_at := now2\<rparr>)\<rparr>"
  using assms by (auto simp: sw_add_def Let_def split: option.splits sum.splits)

lemma sw_add_ok:
  assumes "\<And>st. \<not> isl (marshal st)"
  obtains sw' db' where "sw_add T K marshal now1 now2 d t sw db = Inr (sw', db')"
proof -
  have "\<not> isl (save_latest T K marshal now1 sw db)"
    using assms by (auto simp: save_latest_def isl_def split: option.splits sum.splits prod.splits)
  then obtain db1 where "save_latest T K marshal now1 sw db = Inr db1"
    by (cases "save_latest T K marshal now1 sw db") auto
  with that show thesis
    by (cases "tm_get T (sw_map sw) (sw_key (sw_window_size sw) t)") (auto simp: sw_add_def Let_def)
qed

lemma sw_rep_total: "sw_rep T sw D \<Longrightarrow> stat_counts (sw_total sw) D"
  by (simp add: sw_rep_def)

lemma sw_rep_at:
  assumes "sw_rep T sw D"
  shows "case tm_get T (sw_map sw) k of
            None \<Rightarrow> slice (sw_window_size sw) k D = {#}
          | Some st \<Rightarrow> slice (sw_window_size sw) k D \<noteq> {#} \<and> stat_counts st (slice (sw_window_size sw) k D)"
  using assms unfolding sw_rep_def by blast

lemma sw_rep_None: "sw_rep T sw D \<Longrightarrow> tm_get T (sw_map sw) k = None \<Longrightarrow> slice (sw_window_size sw) k D = {#}"
  using sw_rep_at [of T sw D k] by simp

lemma sw_rep_Some:
  "sw_rep T sw D \<Longrightarrow> tm_get T (sw_map sw) k = Some st \<Longrightarrow>
     slice (sw_window_size sw) k D \<noteq> {#} \<and> stat_counts st (slice (sw_window_size sw) k D)"
  using sw_rep_at [of T sw D k] by simp

lemma sw_repI:
  assumes "stat_counts (sw_total sw) D"
    and "\<And>k. tm_get T (sw_map sw) k = None \<Longrightarrow> slice (sw_window_size sw) k D = {#}"
    and "\<And>k st. tm_get T (sw_map sw) k = Some st \<Longrightarrow>
      slice (sw_window_size sw) k D \<noteq> {#} \<and> stat_counts st (slice (sw_window_size sw) k D)"
  shows "sw_rep T sw D"
  unfolding sw_rep_def using assms by (simp split: option.split)

lemma sw_add_rep:
  assumes T: "treemap T" and rep: "sw_rep T sw D"
    and add: "sw_add T K marshal now1 now2 d t sw db = Inr (sw', db')"
  shows "sw_rep T sw' (add_mset (d, t) D)"
proof -
  let ?k = "sw_key (sw_window_size sw) t"
  from add obtain st where st: "case tm_get T (sw_map sw) ?k of
        None \<Rightarrow> st = stat0\<lparr>sa_time := time_truncate t (sw_window_size sw)\<rparr> | Some s \<Rightarrow> st = s"
    and sw': "sw' = sw\<lparr>sw_total := count_total (count_decision d (sw_total sw)),
       sw_map := tm_put T (sw_map sw) ?k ((count_total (count_decision d st))\<lparr>sa_updated_at := now2\<rparr>)\<rparr>"
    by (rule sw_add_cases)
  have "stat_counts st (slice (sw_window_size sw) ?k D)"
    using st sw_rep_None [OF rep, of ?k] sw_rep_Some [OF rep, of ?k]
    by (auto simp: stat0_counts split: option.splits)
  then have slot: "stat_counts (count_total (count_decision d st)) (add_mset (d, t) (slice (sw_window_size sw) ?k D))"
    by (rule count_counts)
  show ?thesis
    using slot count_counts [OF sw_rep_total [OF rep]] sw_rep_None [OF rep] sw_rep_Some [OF rep]
    by (intro sw_repI) (auto simp: sw' treemap.get_put [OF T] split: if_splits)
qed

lemma filter_slice: "D - slice ws key D = filter_mset (\<lambda>p. sw_key ws (snd p) \<noteq> key) D"
  using multiset_partition [of D "\<lambda>p. sw_key ws (snd p) = key"]
  by (metis (no_types, lifting) add_diff_cancel_left' slice_def)

lemma slice_other: "k \<noteq> key \<Longrightarrow> slice ws k (D - slice ws key D) = slice ws k D"
  unfolding filter_slice by (auto simp: slice_def filter_filter_mset intro!: filter_mset_cong)

text \<open>What the loop leaves: the slices up to the threshold are taken from the totals and from the map.\<close>

definition sw_gone :: "duration \<Rightarrow> time \<Rightarrow> time set \<Rightarrow> (decision \<times> time) multiset \<Rightarrow> (decision \<times> time) multiset" where
  "sw_gone ws th ks D = filter_mset (\<lambda>p. \<not> (sw_key ws (snd p) \<in> ks \<and> sw_key ws (snd p) \<le> th)) D"

lemma sw_gone_insert: "key \<le> th \<Longrightarrow> sw_gone ws th ks (D - slice ws key D) = sw_gone ws th (insert key ks) D"
  unfolding sw_gone_def filter_slice filter_filter_mset by (rule filter_mset_cong) auto

lemma sw_gone_none:
  assumes "\<And>k. k \<in> ks \<Longrightarrow> th < k"
  shows "sw_gone ws th ks D = D"
  using assms unfolding sw_gone_def filter_mset_eq_conv by fastforce

lemma sw_expire_loop_spec:
  assumes T: "treemap T"
  shows "sorted_wrt (<) (map fst iter) \<Longrightarrow>
    (\<And>k st. (k, st) \<in> set iter \<Longrightarrow> stat_counts st (slice ws k D)) \<Longrightarrow>
    stat_counts tot D \<Longrightarrow>
    stat_counts (fst (sw_expire_loop T th iter tot m)) (sw_gone ws th (fst ` set iter) D) \<and>
    (\<forall>k. tm_get T (snd (sw_expire_loop T th iter tot m)) k =
      (if k \<in> fst ` set iter \<and> k \<le> th then None else tm_get T m k))"
proof (induction iter arbitrary: tot m D)
  case Nil
  then show ?case by (simp add: sw_gone_def)
next
  case (Cons e iter)
  obtain key st where e: "e = (key, st)" by force
  from Cons.prems(1) have sorted: "sorted_wrt (<) (map fst iter)" and less: "\<And>k. k \<in> fst ` set iter \<Longrightarrow> key < k"
    by (auto simp: e)
  show ?case
  proof (cases "key > th")
    case True
    then have gt: "th < k" if "k \<in> fst ` set (e # iter)" for k
      using less that by (auto simp: e) force
    then have "\<not> (k \<in> fst ` set (e # iter) \<and> k \<le> th)" for k by fastforce
    moreover have "sw_gone ws th (fst ` set (e # iter)) D = D" using gt by (rule sw_gone_none)
    moreover have "sw_expire_loop T th (e # iter) tot m = (tot, m)" using True by (simp add: e)
    ultimately show ?thesis using Cons.prems(3) by (simp only: fst_conv snd_conv if_False) blast
  next
    case False
    have sub: "slice ws key D \<subseteq># D" by (simp add: slice_def)
    have tot: "stat_counts (stat_sub tot st) (D - slice ws key D)"
      using Cons.prems by (intro sub_counts sub) (auto simp: e)
    have sl: "stat_counts st' (slice ws k (D - slice ws key D))" if "(k, st') \<in> set iter" for k st'
    proof -
      have "k \<noteq> key" using less [of k] that by force
      then show ?thesis using that Cons.prems(2) by (simp add: slice_other)
    qed
    note IH = Cons.IH [OF sorted sl tot, of "tm_remove T m key"]
    have "fst ` set (e # iter) = insert key (fst ` set iter)" by (simp add: e)
    with IH False show ?thesis
      by (auto simp: e treemap.get_remove [OF T] sw_gone_insert)
  qed
qed

lemma sw_expire_eq:
  "sw_expire T now sw = (let r = sw_expire_loop T (sw_threshold (sw_window_size sw) (sw_num_windows sw) now)
       (tm_iter T (sw_map sw)) (sw_total sw) (sw_map sw) in sw\<lparr>sw_total := fst r, sw_map := snd r\<rparr>)"
  by (simp add: sw_expire_def Let_def split: prod.splits)

lemma sw_expire_rep:
  assumes T: "treemap T" and rep: "sw_rep T sw D"
  shows "sw_rep T (sw_expire T now sw)
    (sw_live (sw_window_size sw) (sw_threshold (sw_window_size sw) (sw_num_windows sw) now) D)"
proof -
  let ?ws = "sw_window_size sw" and ?th = "sw_threshold (sw_window_size sw) (sw_num_windows sw) now"
  let ?it = "tm_iter T (sw_map sw)"
  have it: "stat_counts st (slice ?ws k D)" if "(k, st) \<in> set ?it" for k st
    using sw_rep_Some [OF rep, of k st] that treemap.iter_get [OF T, of "sw_map sw"]
      treemap.iter_distinct [OF T, of "sw_map sw"] by (metis map_of_is_SomeI)
  have keys: "k \<in> fst ` set ?it \<longleftrightarrow> tm_get T (sw_map sw) k \<noteq> None" for k
    using treemap.iter_keys [OF T, of "sw_map sw"] by auto
  have live: "sw_gone ?ws ?th (fst ` set ?it) D = sw_live ?ws ?th D"
    unfolding sw_live_def sw_gone_def
  proof (rule filter_mset_cong)
    fix p assume "p \<in># D"
    then have "slice ?ws (sw_key ?ws (snd p)) D \<noteq> {#}" by (auto simp: slice_def filter_mset_eq_conv)
    then have "sw_key ?ws (snd p) \<in> fst ` set ?it"
      using sw_rep_None [OF rep, of "sw_key ?ws (snd p)"] by (auto simp only: keys)
    then show "(\<not> (sw_key ?ws (snd p) \<in> fst ` set ?it \<and> sw_key ?ws (snd p) \<le> ?th)) = (?th < sw_key ?ws (snd p))"
      by auto
  qed simp
  note loop = sw_expire_loop_spec [OF T treemap.iter_sorted [OF T, of "sw_map sw"] it sw_rep_total [OF rep],
      of ?th "sw_map sw", simplified live keys]
  show ?thesis
    using loop sw_rep_None [OF rep] sw_rep_Some [OF rep]
    by (intro sw_repI) (auto simp: sw_expire_eq Let_def slice_live split: if_splits)
qed

section \<open>Properties\<close>

text \<open>A run of \<open>Add\<close>, with its clock readings, and \<open>Expire\<close>, and the decisions it should count.\<close>

datatype sw_event = Decided decision time time time | ExpireAt time

fun sw_run :: "(time, stat, 'm) treemap_api \<Rightarrow> 'db kvstore_api \<Rightarrow> (stat \<Rightarrow> store_error + string) \<Rightarrow> sw_event list
    \<Rightarrow> 'm stats_windows \<Rightarrow> 'db \<Rightarrow> store_error + 'm stats_windows \<times> 'db" where
  "sw_run T K marshal [] sw db = Inr (sw, db)"
| "sw_run T K marshal (Decided d t now1 now2 # es) sw db =
     (case sw_add T K marshal now1 now2 d t sw db of
        Inl err \<Rightarrow> Inl err | Inr (sw', db') \<Rightarrow> sw_run T K marshal es sw' db')"
| "sw_run T K marshal (ExpireAt now # es) sw db = sw_run T K marshal es (sw_expire T now sw) db"

fun sw_live_run :: "duration \<Rightarrow> int \<Rightarrow> sw_event list \<Rightarrow> (decision \<times> time) multiset \<Rightarrow> (decision \<times> time) multiset" where
  "sw_live_run ws n [] D = D"
| "sw_live_run ws n (Decided d t now1 now2 # es) D = sw_live_run ws n es (add_mset (d, t) D)"
| "sw_live_run ws n (ExpireAt now # es) D = sw_live_run ws n es (sw_live ws (sw_threshold ws n now) D)"

lemma sw_add_sizes:
  assumes "sw_add T K marshal now1 now2 d t sw db = Inr (sw', db')"
  shows "sw_window_size sw' = sw_window_size sw \<and> sw_num_windows sw' = sw_num_windows sw"
  using assms by (rule sw_add_cases) simp

lemma sw_expire_sizes [simp]:
  "sw_window_size (sw_expire T now sw) = sw_window_size sw" "sw_num_windows (sw_expire T now sw) = sw_num_windows sw"
  by (simp_all add: sw_expire_eq Let_def)

lemma sw_run_rep:
  assumes T: "treemap T" and ok: "\<And>st. \<not> isl (marshal st)"
  shows "sw_rep T sw D \<Longrightarrow> \<exists>sw' db'. sw_run T K marshal es sw db = Inr (sw', db') \<and>
    sw_rep T sw' (sw_live_run (sw_window_size sw) (sw_num_windows sw) es D)"
proof (induction es arbitrary: sw db D)
  case Nil
  then show ?case by simp
next
  case (Cons e es)
  show ?case
  proof (cases e)
    case (Decided d t now1 now2)
    obtain sw1 db1 where add: "sw_add T K marshal now1 now2 d t sw db = Inr (sw1, db1)"
      by (rule sw_add_ok [OF ok])
    from Cons.IH [OF sw_add_rep [OF T Cons.prems add], of db1] sw_add_sizes [OF add] show ?thesis
      by (simp add: Decided add)
  next
    case (ExpireAt now)
    from Cons.IH [OF sw_expire_rep [OF T Cons.prems, of now], of db] show ?thesis
      by (simp add: ExpireAt)
  qed
qed

lemma size_sw_live_run: "size (sw_live_run ws n es D) \<le> size D + length es"
proof (induction es arbitrary: D)
  case Nil
  then show ?case by simp
next
  case (Cons e es)
  show ?case
  proof (cases e)
    case (Decided d t now1 now2)
    with Cons [of "add_mset (d, t) D"] show ?thesis by simp
  next
    case (ExpireAt now)
    have "size (sw_live ws (sw_threshold ws n now) D) \<le> size D"
      unfolding sw_live_def by (rule size_filter_mset_lesseq)
    with Cons [of "sw_live ws (sw_threshold ws n now) D"] ExpireAt show ?thesis by simp
  qed
qed

lemma cnt_le: "cnt d D \<le> size D"
  unfolding cnt_def by (rule size_filter_mset_lesseq)

text \<open>
  C26: The statistics of the decisions count right: when every slice can be marshalled, a run of \<open>Add\<close> and
  \<open>Expire\<close> succeeds, the totals are the numbers of decisions that have not expired, and the three kinds
  of decision add up to the total.
\<close>

theorem stats_run_counts:
  assumes "treemap T" and "\<And>st. \<not> isl (marshal st)" and "length es < 2 ^ 63"
  shows "\<exists>sw' db'. sw_run T K marshal es (new_stats_windows T cfg) db = Inr (sw', db') \<and>
    sa_total (sw_total sw') = int (size (sw_live_run (cf_window_size cfg) (cf_num_windows cfg) es {#})) \<and>
    sa_blocked (sw_total sw') = int (cnt IsBlocked (sw_live_run (cf_window_size cfg) (cf_num_windows cfg) es {#})) \<and>
    sa_total (sw_total sw') = sa_blocked (sw_total sw') + sa_whitelisted (sw_total sw') + sa_human (sw_total sw')"
proof -
  let ?D = "sw_live_run (cf_window_size cfg) (cf_num_windows cfg) es {#}"
  obtain sw' db' where run: "sw_run T K marshal es (new_stats_windows T cfg) db = Inr (sw', db')" and rep: "sw_rep T sw' ?D"
    using sw_run_rep [where marshal = marshal, OF assms(1,2) new_stats_windows_rep [OF assms(1), of cfg], where es = es and K = K and db = db]
    by (auto simp: new_stats_windows_def)
  have small: "i64 (int m) = int m" if "m \<le> size ?D" for m
    using that size_sw_live_run [of "cf_window_size cfg" "cf_num_windows cfg" es "{#}"] assms(3)
    by (intro i64_nonneg_id) auto
  have "stat_counts (sw_total sw') ?D" using rep by (rule sw_rep_total)
  then show ?thesis
    using run small [OF order_refl] small [OF cnt_le] cnt_sum [of ?D]
    by (intro exI [of _ sw'] exI [of _ db']) (simp add: stat_counts_def flip: of_nat_add)
qed


instance stat_json_ext :: (countable) countable
  by (rule countable_classI [of "\<lambda>x. to_nat (sj_total x, sj_whitelisted x, sj_blocked x, sj_human x, sj_time x,
      sj_updated_at x, stat_json.more x)"]) (auto intro: stat_json.equality)

lemma stats_run_counts_witness:
  "\<exists>sw' db'. sw_run rbt_api mem_kv (\<lambda>_. Inr ''{}'') [Decided IsBlocked 5 6 6, Decided IsHuman (10 ^ 11) 7 7]
     (new_stats_windows rbt_api wit_cfg) RBT.empty = Inr (sw', db') \<and> sa_total (sw_total sw') = 2 \<and>
     sa_blocked (sw_total sw') = 1"
  using stats_run_counts [OF rbt.treemap_axioms, of "\<lambda>_. Inr ''{}''" "[Decided IsBlocked 5 6 6, Decided IsHuman (10 ^ 11) 7 7]" mem_kv wit_cfg RBT.empty]
  by (auto simp: cnt_def)


end
