(* ===== verification/Whitelist.thy ===== *)
theory Whitelist
  imports Net
begin

text \<open>
  \<^verbatim>\<open>whitelist.go\<close>: loading the whitelist rules and deciding whether an address or a request is whitelisted.
  The TOML parser is another package: what it gives is an argument of \<open>wl_load\<close>. \<open>compile\<close> is
  \<open>regexp.Compile\<close> on a pattern of the rules file, giving what \<open>MatchString\<close> of the result answers;
  \<open>None\<close> is its error. A rule whose regexp has been compiled is \<open>wl_rule\<close>.
\<close>

section \<open>State\<close>

type_synonym regexp = "string \<Rightarrow> bool"

text \<open>\<open>WhitelistRule\<close> as parsed, and after \<open>Load\<close> has compiled it; \<open>WhitelistRules\<close> of either.\<close>

record toml_rule =
  tr_pattern :: string
  tr_description :: string

record wl_rule = toml_rule +
  wr_regexp :: regexp

record 'r wl_rules =
  rules_ip :: "'r list"
  rules_cidr :: "'r list"
  rules_client_host :: "'r list"
  rules_org :: "'r list"
  rules_asn :: "'r list"
  rules_useragent :: "'r list"
  rules_server_host :: "'r list"
  rules_server_path :: "'r list"

record cidr_rule =
  cr_network :: ipnet
  cr_description :: string

text \<open>\<open>None\<close> in the pattern fields is the nil pointer; nothing in the program sets \<open>regexps\<close>.\<close>

record whitelist =
  wl_regexps_url :: "regexp option"
  wl_asns :: "int \<rightharpoonup> string"
  wl_cidrs :: "cidr_rule list"
  wl_ip_rules :: "wl_rule list"
  wl_client_host_rules :: "wl_rule list"
  wl_org_rules :: "wl_rule list"
  wl_server_host :: "regexp option"
  wl_server_path :: "regexp option"
  wl_useragent :: "regexp option"
  wl_updated_at :: time

definition new_whitelist :: whitelist where
  "new_whitelist = \<lparr>wl_regexps_url = None, wl_asns = Map.empty, wl_cidrs = [], wl_ip_rules = [],
     wl_client_host_rules = [], wl_org_rules = [], wl_server_host = None, wl_server_path = None,
     wl_useragent = None, wl_updated_at = zero_time\<rparr>"

section \<open>Loading the rules\<close>

datatype load_error =
    FileError string
  | InvalidASN string
  | BadPattern string string
  | BadCIDR string string

datatype load_result = Loaded whitelist | LoadFailed load_error | LoadPanic whitelist panic

text \<open>\<open>strconv.ParseInt(s, 10, 64)\<close>\<close>

definition parse_int64 :: "string \<Rightarrow> int option" where
  "parse_int64 s =
     (let neg = (s \<noteq> [] \<and> hd s = CHR ''-'');
          ds = (if s \<noteq> [] \<and> (hd s = CHR ''-'' \<or> hd s = CHR ''+'') then tl s else s);
          n = int (read_nat ds);
          v = (if neg then - n else n)
      in if ds = [] \<or> \<not> list_all is_digit ds \<or> \<not> in64 v then None else Some v)"

text \<open>\<open>strings.Replace(s, "\", "", -1)\<close> and \<open>strings.TrimSpace\<close>, the latter on ASCII strings.\<close>

definition is_space :: "char \<Rightarrow> bool" where
  "is_space c \<longleftrightarrow> (of_char c :: nat) \<in> {9, 10, 11, 12, 13, 32}"

definition remove_backslash :: "string \<Rightarrow> string" where
  "remove_backslash s = filter (\<lambda>c. (of_char c :: nat) \<noteq> 92) s"

definition trim_space :: "string \<Rightarrow> string" where
  "trim_space s = rev (dropWhile is_space (rev (dropWhile is_space s)))"

lemma trim_space_id: "list_all (\<lambda>c. \<not> is_space c) s \<Longrightarrow> trim_space s = s"
  by (cases s; cases s rule: rev_cases) (auto simp: trim_space_def dropWhile_eq_self_iff list_all_iff hd_append hd_rev last_ConsR)

lemma parse_int64_show:
  assumes "0 \<le> i" and "i < 2 ^ 63"
  shows "parse_int64 (show_int i) = Some i"
proof -
  have digits: "list_all is_digit (show_nat (nat i))" using show_nat_digits by (simp add: list_all_iff)
  then have "is_digit (hd (show_nat (nat i)))" by (cases "show_nat (nat i)") auto
  then have "hd (show_nat (nat i)) \<noteq> CHR ''-''" "hd (show_nat (nat i)) \<noteq> CHR ''+''"
    by (auto simp: is_digit_def)
  with digits assms show ?thesis
    by (simp add: parse_int64_def show_int_def in64_def Let_def)
qed

text \<open>\<open>fmt.Sprintf("^%s$", p)\<close>, and the joined pattern of a list of rules.\<close>

definition anchored :: "string \<Rightarrow> string" where
  "anchored p = ''^'' @ p @ ''$''"

fun join_bar :: "string list \<Rightarrow> string" where
  "join_bar [] = []"
| "join_bar [p] = p"
| "join_bar (p # ps) = p @ ''|'' @ join_bar ps"

definition joined :: "toml_rule list \<Rightarrow> string" where
  "joined rules = ''^('' @ join_bar (map tr_pattern rules) @ '')$''"

fun load_asns :: "(string \<Rightarrow> regexp option) \<Rightarrow> toml_rule list \<Rightarrow> (int \<rightharpoonup> string) \<Rightarrow> load_error + (int \<rightharpoonup> string)" where
  "load_asns compile [] asns = Inr asns"
| "load_asns compile (r # rs) asns =
     (case parse_int64 (tr_pattern r) of
        None \<Rightarrow> Inl (InvalidASN (tr_pattern r))
      | Some asn \<Rightarrow>
          (case compile (tr_pattern r) of
             None \<Rightarrow> Inl (BadPattern (tr_pattern r) (tr_description r))
           | Some _ \<Rightarrow> load_asns compile rs (asns(asn \<mapsto> tr_description r))))"

fun compile_rules :: "(string \<Rightarrow> regexp option) \<Rightarrow> toml_rule list \<Rightarrow> load_error + wl_rule list" where
  "compile_rules compile [] = Inr []"
| "compile_rules compile (r # rs) =
     (case compile (anchored (tr_pattern r)) of
        None \<Rightarrow> Inl (BadPattern (tr_pattern r) (tr_description r))
      | Some re \<Rightarrow>
          (case compile_rules compile rs of
             Inl err \<Rightarrow> Inl err
           | Inr rs' \<Rightarrow> Inr (toml_rule.extend (toml_rule.truncate r) \<lparr>wr_regexp = re\<rparr> # rs')))"

fun load_cidrs :: "toml_rule list \<Rightarrow> load_error + cidr_rule list" where
  "load_cidrs [] = Inr []"
| "load_cidrs (r # rs) =
     (case parse_cidr (trim_space (remove_backslash (tr_pattern r))) of
        None \<Rightarrow> Inl (BadCIDR (tr_pattern r) (tr_description r))
      | Some network \<Rightarrow>
          (case load_cidrs rs of
             Inl err \<Rightarrow> Inl err
           | Inr cs \<Rightarrow> Inr (\<lparr>cr_network = network, cr_description = tr_description r\<rparr> # cs)))"

text \<open>
  \<open>Load\<close>: nothing is assigned before all rules are compiled. The joined patterns are compiled with
  \<open>MustCompile\<close>, which panics, after \<open>asns\<close>, \<open>rules\<close> and \<open>cidrs\<close> have been assigned. Opening, reading
  and parsing the file is the argument \<open>file\<close>.
\<close>

definition wl_load :: "(string \<Rightarrow> regexp option) \<Rightarrow> load_error + toml_rule wl_rules \<Rightarrow> time \<Rightarrow> whitelist
    \<Rightarrow> load_result" where
  "wl_load compile file now wl =
     (case file of Inl err \<Rightarrow> LoadFailed err | Inr rules \<Rightarrow>
     (case load_asns compile (rules_asn rules) Map.empty of Inl err \<Rightarrow> LoadFailed err | Inr asns \<Rightarrow>
     (case compile_rules compile (rules_client_host rules) of Inl err \<Rightarrow> LoadFailed err | Inr client_host \<Rightarrow>
     (case compile_rules compile (rules_ip rules) of Inl err \<Rightarrow> LoadFailed err | Inr ips \<Rightarrow>
     (case compile_rules compile (rules_org rules) of Inl err \<Rightarrow> LoadFailed err | Inr orgs \<Rightarrow>
     (case compile_rules compile (rules_server_host rules) of Inl err \<Rightarrow> LoadFailed err | Inr _ \<Rightarrow>
     (case compile_rules compile (rules_server_path rules) of Inl err \<Rightarrow> LoadFailed err | Inr _ \<Rightarrow>
     (case compile_rules compile (rules_useragent rules) of Inl err \<Rightarrow> LoadFailed err | Inr _ \<Rightarrow>
     (case load_cidrs (rules_cidr rules) of Inl err \<Rightarrow> LoadFailed err | Inr cidrs \<Rightarrow>
        let wl1 = wl\<lparr>wl_asns := asns, wl_client_host_rules := client_host, wl_ip_rules := ips,
                     wl_org_rules := orgs, wl_cidrs := cidrs\<rparr>
        in case compile (joined (rules_server_host rules)) of
             None \<Rightarrow> LoadPanic wl1 (InvalidInput (joined (rules_server_host rules)))
           | Some host \<Rightarrow>
        let wl2 = wl1\<lparr>wl_server_host := Some host\<rparr>
        in case compile (joined (rules_server_path rules)) of
             None \<Rightarrow> LoadPanic wl2 (InvalidInput (joined (rules_server_path rules)))
           | Some path \<Rightarrow>
        let wl3 = wl2\<lparr>wl_server_path := Some path\<rparr>
        in case compile (joined (rules_useragent rules)) of
             None \<Rightarrow> LoadPanic wl3 (InvalidInput (joined (rules_useragent rules)))
           | Some agent \<Rightarrow> Loaded (wl3\<lparr>wl_useragent := Some agent, wl_updated_at := now\<rparr>))))))))))"

text \<open>
  A reload by the file watcher, and the first load by \<open>NewWhitelist\<close>: the error is dropped. The flag says
  whether a recheck of the blocklist was requested.
\<close>

definition wl_reload :: "(string \<Rightarrow> regexp option) \<Rightarrow> load_error + toml_rule wl_rules \<Rightarrow> time \<Rightarrow> whitelist
    \<Rightarrow> panic + whitelist \<times> bool" where
  "wl_reload compile file now wl =
     (case wl_load compile file now wl of
        Loaded wl' \<Rightarrow> Inr (wl', True) | LoadFailed _ \<Rightarrow> Inr (wl, False) | LoadPanic _ p \<Rightarrow> Inl p)"

section \<open>Deciding\<close>

fun first_match :: "string \<Rightarrow> wl_rule list \<Rightarrow> string option" where
  "first_match s [] = None"
| "first_match s (r # rs) = (if wr_regexp r s then Some (tr_description r) else first_match s rs)"

fun first_network :: "ip \<Rightarrow> cidr_rule list \<Rightarrow> string option" where
  "first_network ip [] = None"
| "first_network ip (c # cs) =
     (if ipnet_contains (cr_network c) ip then Some (cr_description c) else first_network ip cs)"

definition is_cidr_whitelisted :: "whitelist \<Rightarrow> ip \<Rightarrow> bool \<times> string" where
  "is_cidr_whitelisted wl ip = (case first_network ip (wl_cidrs wl) of Some d \<Rightarrow> (True, d) | None \<Rightarrow> (False, []))"

text \<open>\<open>IsWhitelisted\<close> reads \<open>ipd.ASN.ASN\<close> first: an address without ASN panics.\<close>

definition is_whitelisted :: "whitelist \<Rightarrow> ip_details \<Rightarrow> panic + bool \<times> string" where
  "is_whitelisted wl ipd =
     (case id_asn ipd of
        None \<Rightarrow> Inl NilDereference
      | Some asn \<Rightarrow>
          (case wl_asns wl (asn_number asn) of Some d \<Rightarrow> Inr (True, d) | None \<Rightarrow>
          (case first_match (id_hostname ipd) (wl_client_host_rules wl) of Some d \<Rightarrow> Inr (True, d) | None \<Rightarrow>
          (case first_network (id_ip ipd) (wl_cidrs wl) of Some d \<Rightarrow> Inr (True, d) | None \<Rightarrow>
          (case first_match (ip_string (id_ip ipd)) (wl_ip_rules wl) of Some d \<Rightarrow> Inr (True, d) | None \<Rightarrow>
          (case first_match (asn_org asn) (wl_org_rules wl) of Some d \<Rightarrow> Inr (True, d) | None \<Rightarrow>
             Inr (False, [])))))))"

definition match_pattern :: "regexp option \<Rightarrow> string \<Rightarrow> panic + bool" where
  "match_pattern re s = (case re of None \<Rightarrow> Inl NilDereference | Some f \<Rightarrow> Inr (f s))"

definition is_whitelisted_by_server_host :: "whitelist \<Rightarrow> request \<Rightarrow> panic + bool" where
  "is_whitelisted_by_server_host wl r = match_pattern (wl_server_host wl) (rq_host r)"

definition is_whitelisted_by_server_path :: "whitelist \<Rightarrow> request \<Rightarrow> panic + bool" where
  "is_whitelisted_by_server_path wl r = match_pattern (wl_server_path wl) (rq_url r)"

definition is_whitelisted_by_useragent :: "whitelist \<Rightarrow> request \<Rightarrow> panic + bool" where
  "is_whitelisted_by_useragent wl r = match_pattern (wl_useragent wl) (rq_url r)"

definition is_url_whitelisted :: "whitelist \<Rightarrow> string \<Rightarrow> panic + bool" where
  "is_url_whitelisted wl url = match_pattern (wl_regexps_url wl) url"

section \<open>The decision as a search through one list of rules\<close>

text \<open>
  The reference: every rule as a test of the address with its description, in the order of precedence.
\<close>

type_synonym wl_test = "(ip_details \<Rightarrow> bool) \<times> string"

definition details_asn :: "ip_details \<Rightarrow> asn" where
  "details_asn ipd = the (id_asn ipd)"

definition wl_tests :: "whitelist \<Rightarrow> wl_test list" where
  "wl_tests wl =
     map (\<lambda>r. (\<lambda>ipd. wr_regexp r (id_hostname ipd), tr_description r)) (wl_client_host_rules wl) @
     map (\<lambda>c. (\<lambda>ipd. ipnet_contains (cr_network c) (id_ip ipd), cr_description c)) (wl_cidrs wl) @
     map (\<lambda>r. (\<lambda>ipd. wr_regexp r (ip_string (id_ip ipd)), tr_description r)) (wl_ip_rules wl) @
     map (\<lambda>r. (\<lambda>ipd. wr_regexp r (asn_org (details_asn ipd)), tr_description r)) (wl_org_rules wl)"

definition first_test :: "wl_test list \<Rightarrow> ip_details \<Rightarrow> string option" where
  "first_test ts ipd = map_option snd (find (\<lambda>t. fst t ipd) ts)"

lemma find_append: "find P (xs @ ys) = (case find P xs of Some x \<Rightarrow> Some x | None \<Rightarrow> find P ys)"
  by (induction xs) auto

lemma first_test_append:
  "first_test (xs @ ys) ipd = (case first_test xs ipd of Some d \<Rightarrow> Some d | None \<Rightarrow> first_test ys ipd)"
  by (simp add: first_test_def find_append split: option.splits)

lemma first_match_test: "first_match (f ipd) rs = first_test (map (\<lambda>r. (\<lambda>ipd. wr_regexp r (f ipd), tr_description r)) rs) ipd"
  by (induction rs) (auto simp: first_test_def)

lemma first_network_test:
  "first_network (id_ip ipd) cs =
     first_test (map (\<lambda>c. (\<lambda>ipd. ipnet_contains (cr_network c) (id_ip ipd), cr_description c)) cs) ipd"
  by (induction cs) (auto simp: first_test_def)

definition wl_decision :: "whitelist \<Rightarrow> ip_details \<Rightarrow> string option" where
  "wl_decision wl ipd =
     (case wl_asns wl (asn_number (details_asn ipd)) of Some d \<Rightarrow> Some d | None \<Rightarrow> first_test (wl_tests wl) ipd)"

lemma is_whitelisted_decision:
  "id_asn ipd \<noteq> None \<Longrightarrow> is_whitelisted wl ipd =
     Inr (case wl_decision wl ipd of Some d \<Rightarrow> (True, d) | None \<Rightarrow> (False, []))"
  by (auto simp: is_whitelisted_def wl_decision_def wl_tests_def first_test_append details_asn_def
      first_match_test [where f = id_hostname] first_match_test [where f = "\<lambda>ipd. ip_string (id_ip ipd)"]
      first_match_test [where f = "\<lambda>ipd. asn_org (the (id_asn ipd))", symmetric] first_network_test
      split: option.splits)

lemma wl_decision_None:
  "wl_decision wl ipd = None \<longleftrightarrow>
     wl_asns wl (asn_number (details_asn ipd)) = None \<and> list_all (\<lambda>t. \<not> fst t ipd) (wl_tests wl)"
  by (auto simp: wl_decision_def first_test_def find_None_iff list_all_iff split: option.splits)

section \<open>What Load accepts\<close>

lemma compile_rules_Cons:
  "compile_rules compile (r # rs) = Inr rs' \<longleftrightarrow>
     (\<exists>re rs''. compile (anchored (tr_pattern r)) = Some re \<and> compile_rules compile rs = Inr rs'' \<and>
        rs' = toml_rule.extend (toml_rule.truncate r) \<lparr>wr_regexp = re\<rparr> # rs'')"
  by (auto split: option.splits sum.splits)

lemma load_cidrs_Cons:
  "load_cidrs (r # rs) = Inr cs \<longleftrightarrow>
     (\<exists>network cs'. parse_cidr (trim_space (remove_backslash (tr_pattern r))) = Some network \<and>
        load_cidrs rs = Inr cs' \<and> cs = \<lparr>cr_network = network, cr_description = tr_description r\<rparr> # cs')"
  by (auto split: option.splits sum.splits)

lemma compile_rules_Inr:
  "compile_rules compile rs = Inr rs' \<longleftrightarrow>
     list_all2 (\<lambda>r r'. compile (anchored (tr_pattern r)) = Some (wr_regexp r') \<and>
       tr_pattern r' = tr_pattern r \<and> tr_description r' = tr_description r) rs rs'"
proof (induction rs arbitrary: rs')
  case Nil
  then show ?case by auto
next
  case (Cons r rs)
  have eq: "r' = toml_rule.extend (toml_rule.truncate r) \<lparr>wr_regexp = wr_regexp r'\<rparr>"
    if "tr_pattern r' = tr_pattern r" and "tr_description r' = tr_description r" for r' :: wl_rule
    using that by (simp add: toml_rule.defs)
  show ?case
    unfolding compile_rules_Cons list_all2_Cons1 Cons.IH [symmetric] using eq
    by (auto simp: toml_rule.defs)
qed

lemma load_cidrs_Inr:
  "load_cidrs rs = Inr cs \<longleftrightarrow>
     list_all2 (\<lambda>r c. parse_cidr (trim_space (remove_backslash (tr_pattern r))) = Some (cr_network c) \<and>
       cr_description c = tr_description r) rs cs"
proof (induction rs arbitrary: cs)
  case Nil
  then show ?case by auto
next
  case (Cons r rs)
  show ?case
    unfolding load_cidrs_Cons list_all2_Cons1 Cons.IH [symmetric] by auto
qed

lemma load_asns_Inr:
  "load_asns compile rs m = Inr m' \<Longrightarrow>
     m' = m ++ map_of (rev (map (\<lambda>r. (the (parse_int64 (tr_pattern r)), tr_description r)) rs)) \<and>
     list_all (\<lambda>r. parse_int64 (tr_pattern r) \<noteq> None) rs"
  by (induction rs arbitrary: m) (auto split: option.splits simp: map_add_upd_left)

section \<open>Properties\<close>

text \<open>
  C15: Deciding is a search: an address with an ASN is whitelisted exactly by the first rule that applies to
  it, autonomous systems first, then client hostnames, networks, addresses and organisations, and the
  description is that rule's.
\<close>

theorem is_whitelisted_first_rule:
  assumes "id_asn ipd = Some asn"
  shows "is_whitelisted wl ipd = Inr (case wl_asns wl (asn_number asn) of
      Some d \<Rightarrow> (True, d)
    | None \<Rightarrow> (case find (\<lambda>t. fst t ipd) (wl_tests wl) of Some t \<Rightarrow> (True, snd t) | None \<Rightarrow> (False, [])))"
  using is_whitelisted_decision [of ipd wl] assms
  by (auto simp: wl_decision_def details_asn_def first_test_def split: option.splits)

text \<open>
  A file is loaded as a whole: when \<open>Load\<close> succeeds, the autonomous systems are the file's, a later rule
  overriding an earlier one, and the host, address, organisation and network rules are the file's in order, each
  compiled as it stands between \<open>^\<close> and \<open>$\<close>.
\<close>

theorem load_takes_the_file:
  assumes "wl_load compile (Inr rules) now wl = Loaded wl'"
  shows "wl_asns wl' = map_of (rev (map (\<lambda>r. (the (parse_int64 (tr_pattern r)), tr_description r)) (rules_asn rules))) \<and>
    list_all2 (\<lambda>r r'. compile (anchored (tr_pattern r)) = Some (wr_regexp r') \<and> tr_pattern r' = tr_pattern r \<and>
      tr_description r' = tr_description r) (rules_client_host rules) (wl_client_host_rules wl') \<and>
    list_all2 (\<lambda>r r'. compile (anchored (tr_pattern r)) = Some (wr_regexp r') \<and> tr_pattern r' = tr_pattern r \<and>
      tr_description r' = tr_description r) (rules_ip rules) (wl_ip_rules wl') \<and>
    list_all2 (\<lambda>r c. parse_cidr (trim_space (remove_backslash (tr_pattern r))) = Some (cr_network c) \<and>
      cr_description c = tr_description r) (rules_cidr rules) (wl_cidrs wl') \<and>
    wl_updated_at wl' = now"
proof -
  obtain asns hosts ips orgs cidrs where
    parts: "load_asns compile (rules_asn rules) Map.empty = Inr asns"
      "compile_rules compile (rules_client_host rules) = Inr hosts" "compile_rules compile (rules_ip rules) = Inr ips"
      "compile_rules compile (rules_org rules) = Inr orgs" "load_cidrs (rules_cidr rules) = Inr cidrs"
    and wl': "wl_asns wl' = asns" "wl_client_host_rules wl' = hosts" "wl_ip_rules wl' = ips" "wl_cidrs wl' = cidrs"
      "wl_updated_at wl' = now"
    using assms by (auto simp: wl_load_def Let_def split: sum.splits option.splits)
  show ?thesis
    using load_asns_Inr [OF parts(1)] parts(2,3) [unfolded compile_rules_Inr] parts(5) [unfolded load_cidrs_Inr]
    by (simp add: wl')
qed

definition groups_ok :: "(string \<Rightarrow> regexp option) \<Rightarrow> toml_rule wl_rules \<Rightarrow> bool" where
  "groups_ok compile rules \<longleftrightarrow> \<not> isl (load_asns compile (rules_asn rules) Map.empty) \<and>
     \<not> isl (compile_rules compile (rules_client_host rules)) \<and> \<not> isl (compile_rules compile (rules_ip rules)) \<and>
     \<not> isl (compile_rules compile (rules_org rules)) \<and> \<not> isl (compile_rules compile (rules_server_host rules)) \<and>
     \<not> isl (compile_rules compile (rules_server_path rules)) \<and> \<not> isl (compile_rules compile (rules_useragent rules)) \<and>
     \<not> isl (load_cidrs (rules_cidr rules))"


definition wit_compile :: "string \<Rightarrow> regexp option" where
  "wit_compile p = (if p = [] then None else Some (\<lambda>s. s = p))"

definition wit_rules :: "toml_rule wl_rules" where
  "wit_rules = \<lparr>rules_ip = [], rules_cidr = [\<lparr>tr_pattern = ''10.0.0.0/8 '', tr_description = ''intranet''\<rparr>],
     rules_client_host = [\<lparr>tr_pattern = ''crawler'', tr_description = ''crawler''\<rparr>], rules_org = [],
     rules_asn = [\<lparr>tr_pattern = ''15169'', tr_description = ''Google''\<rparr>], rules_useragent = [],
     rules_server_host = [], rules_server_path = []\<rparr>"

lemma wit_cidr: "\<exists>n. parse_cidr (trim_space (remove_backslash ''10.0.0.0/8 '')) = Some n"
proof -
  have "parse_cidr (trim_space (remove_backslash ''10.0.0.0/8 '')) = Some \<lparr>net_ip = [10, 0, 0, 0], net_mask = [255, 0, 0, 0]\<rparr>"
    by code_simp
  then show ?thesis by blast
qed

lemma wit_asn_number: "parse_int64 ''15169'' = Some 15169"
  by code_simp

lemma wit_load: "\<exists>wl'. wl_load wit_compile (Inr wit_rules) 5 new_whitelist = Loaded wl'"
  using wit_cidr by (auto simp: wl_load_def wit_rules_def wit_asn_number wit_compile_def anchored_def joined_def Let_def)

lemma load_takes_the_file_witness:
  "\<exists>wl'. wl_load wit_compile (Inr wit_rules) 5 new_whitelist = Loaded wl' \<and> wl_asns wl' 15169 = Some ''Google''"
proof -
  obtain wl' where wl': "wl_load wit_compile (Inr wit_rules) 5 new_whitelist = Loaded wl'"
    using wit_load by blast
  have "wl_asns wl' 15169 = Some ''Google''"
    using load_takes_the_file [OF wl'] by (simp add: wit_rules_def wit_asn_number)
  with wl' show ?thesis by blast
qed

definition wit_rule_details :: ip_details where
  "wit_rule_details = \<lparr>id_ip = v4_prefix @ [10, 1, 2, 3], id_hostname = ''host'',
     id_asn = Some \<lparr>asn_network = None, asn_cidr = [], asn_number = 7, asn_org = ''Example''\<rparr>, id_geoip = None, id_total = 0,
     id_app = 0, id_other = 0, id_ratio = Fin 0, id_is_blocked = False, id_block_reason = Reason [],
     id_whitelisted = False, id_whitelist_reason = [], id_created_at = 0, id_updated_at = 0, id_last_block_at = 0,
     id_force_block = False\<rparr>"

lemma is_whitelisted_first_rule_witness:
  "is_whitelisted (new_whitelist\<lparr>wl_client_host_rules := [\<lparr>tr_pattern = ''h.*'', tr_description = ''ours'', wr_regexp = (\<lambda>s. hd s = CHR ''h'')\<rparr>]\<rparr>)
     wit_rule_details = Inr (True, ''ours'')"
  using is_whitelisted_first_rule [of wit_rule_details "\<lparr>asn_network = None, asn_cidr = [], asn_number = 7, asn_org = ''Example''\<rparr>"]
  by (simp add: wit_rule_details_def new_whitelist_def wl_tests_def)

end
