(* ===== verification/IPData.thy ===== *)
theory IPData
  imports Requests StatsWindows Whitelist
begin

text \<open>
  \<^verbatim>\<open>ipdata.go\<close>: what is known of one address, and the decision whether to block it. The ASN and GeoIP
  databases and the plugins are parameters. Effects on channels are part of the results: the flag \<open>resolve\<close>
  is a call of the resolver, the flag \<open>send\<close> a message on \<open>BlockChan\<close>. \<open>time.Now\<close> is an argument.
\<close>

section \<open>State and construction\<close>

record 'm ip_data =
  ipd_details :: ip_details
  ipd_requests :: "'m requests"

type_synonym plugin_decision = "ip_stats \<Rightarrow> bool \<times> reason"

definition new_details :: "(ip \<Rightarrow> asn option) \<Rightarrow> (ip \<Rightarrow> string option) \<Rightarrow> time \<Rightarrow> ip \<Rightarrow> ip_details" where
  "new_details asndb geoipdb now ip =
     \<lparr>id_ip = ip, id_hostname = [], id_asn = asndb ip, id_geoip = geoipdb ip, id_total = 0, id_app = 0,
      id_other = 0, id_ratio = Fin 0, id_is_blocked = False, id_block_reason = Reason [],
      id_whitelisted = False, id_whitelist_reason = [], id_created_at = now, id_updated_at = 0,
      id_last_block_at = zero_time, id_force_block = False\<rparr>"

definition new_ip_data :: "(int, int, 'm) treemap_api \<Rightarrow> (ip \<Rightarrow> asn option) \<Rightarrow> (ip \<Rightarrow> string option) \<Rightarrow> whitelist
    \<Rightarrow> time \<Rightarrow> time \<Rightarrow> time \<Rightarrow> ip \<Rightarrow> config \<Rightarrow> panic + 'm ip_data" where
  "new_ip_data T asndb geoipdb wl now now' now'' ip cfg =
     (let d = new_details asndb geoipdb now ip
      in case is_whitelisted wl d of
           Inl p \<Rightarrow> Inl p
         | Inr (whitelisted, reason) \<Rightarrow>
             Inr \<lparr>ipd_details = d\<lparr>id_whitelisted := whitelisted, id_whitelist_reason := reason\<rparr>,
                  ipd_requests = new_requests T now' now'' ip cfg\<rparr>)"

text \<open>
  \<open>Add\<close>: count the request and say how its address is classified. The request comes back with its mark,
  the statistics are those sent to the history.
\<close>

definition ip_decision :: "ip_details \<Rightarrow> decision" where
  "ip_decision d = (if id_is_blocked d then IsBlocked else if id_whitelisted d then IsWhitelisted else IsHuman)"

definition ipd_add :: "(int, int, 'm) treemap_api \<Rightarrow> expire_clock \<Rightarrow> bool \<Rightarrow> time \<Rightarrow> request \<Rightarrow> 'm ip_data
    \<Rightarrow> 'm ip_data \<times> request \<times> ip_stats option \<times> decision" where
  "ipd_add T ck chan_open now r ipd =
     (let d = (ipd_details ipd)\<lparr>id_updated_at := now\<rparr>;
          (reqs, r', stats) = requests_add T ck chan_open r (ipd_requests ipd)
      in (\<lparr>ipd_details = d, ipd_requests = reqs\<rparr>, r', stats, ip_decision d))"

definition ipd_expire :: "(int, int, 'm) treemap_api \<Rightarrow> expire_clock \<Rightarrow> 'm ip_data \<Rightarrow> 'm ip_data \<times> int" where
  "ipd_expire T ck ipd =
     (let (reqs, n) = requests_expire T ck (ipd_requests ipd) in (ipd\<lparr>ipd_requests := reqs\<rparr>, n))"

definition details_stats :: "ip_details \<Rightarrow> stats" where
  "details_stats d =
     \<lparr>st_total = id_total d, st_app = id_app d, st_other = id_other d, st_ratio = id_ratio d, st_ips = 0,
      st_asn = id_asn d\<rparr>"

definition details_ip_stats :: "ip_details \<Rightarrow> ip_stats" where
  "details_ip_stats d =
     stats.extend (details_stats d)
       \<lparr>is_ip = id_ip d,
        is_with_hostname = (if id_hostname d \<noteq> [] \<and> id_hostname d \<noteq> ''resolving'' then 1 else 0)\<rparr>"

section \<open>The decision to block\<close>

text \<open>The loop over the plugins stops at the first that wants the address blocked.\<close>

fun plugin_verdict :: "plugin_decision list \<Rightarrow> ip_stats \<Rightarrow> reason option" where
  "plugin_verdict [] st = None"
| "plugin_verdict (p # ps) st = (let (blocked, reason) = p st in if blocked then Some reason else plugin_verdict ps st)"

text \<open>The tests before the label \<open>RESOLVE\<close>: the reason to block, if any.\<close>

definition block_verdict :: "config \<Rightarrow> plugin_decision list \<Rightarrow> ip_details \<Rightarrow> reason option" where
  "block_verdict cfg plugins d =
     (if id_app d > cf_max_app cfg then Some (TooManyRequests (id_app d) (cf_max_app cfg))
      else if id_app d > cf_min_app cfg \<and> cf_max_ratio cfg \<le> id_ratio d then
        Some (TooManyAndRatio (id_app d) (cf_min_app cfg) (id_ratio d) (cf_max_ratio cfg))
      else plugin_verdict plugins (details_ip_stats d))"

definition stale :: "config \<Rightarrow> time \<Rightarrow> ip_details \<Rightarrow> bool" where
  "stale cfg now d \<longleftrightarrow>
     (let threshold = now + i64 (- 1 * cf_window_size cfg)
      in id_updated_at d < threshold \<and> id_created_at d < threshold)"

text \<open>\<open>ShouldBeBlocked\<close>: the new details, whether the resolver is called, and the answer.\<close>

definition should_be_blocked :: "config \<Rightarrow> whitelist \<Rightarrow> plugin_decision list \<Rightarrow> time \<Rightarrow> ip_details
    \<Rightarrow> panic + ip_details \<times> bool \<times> bool" where
  "should_be_blocked cfg wl plugins now d =
     (if id_hostname d = ''resolving'' \<or> id_whitelisted d then Inr (d, False, False)
      else if stale cfg now d then Inr (d, False, False)
      else case is_whitelisted wl d of
             Inl p \<Rightarrow> Inl p
           | Inr (True, descr) \<Rightarrow> Inr (d\<lparr>id_whitelisted := True, id_whitelist_reason := descr\<rparr>, False, False)
           | Inr (False, _) \<Rightarrow>
               (case block_verdict cfg plugins d of
                  None \<Rightarrow> Inr (d, False, False)
                | Some reason \<Rightarrow>
                    let d1 = d\<lparr>id_block_reason := reason\<rparr>
                    in if id_hostname d1 = [] then Inr (d1\<lparr>id_hostname := ''resolving''\<rparr>, True, False)
                       else Inr (d1, False, True)))"

text \<open>
  \<open>Update\<close>: take over the statistics, decide, and send the address to the block worker unless it was sent
  within the time to live of a block. \<open>now\<close> is read before \<open>ShouldBeBlocked\<close> reads \<open>now'\<close>. The log line
  before the send dereferences \<open>GeoIP\<close>.
\<close>

definition set_stats :: "ip_stats \<Rightarrow> ip_details \<Rightarrow> ip_details" where
  "set_stats st d = d\<lparr>id_total := st_total st, id_app := st_app st, id_other := st_other st, id_ratio := st_ratio st\<rparr>"

definition ipd_update :: "config \<Rightarrow> whitelist \<Rightarrow> plugin_decision list \<Rightarrow> time \<Rightarrow> time \<Rightarrow> ip_stats \<Rightarrow> bool
    \<Rightarrow> ip_details \<Rightarrow> panic + ip_details \<times> bool \<times> bool" where
  "ipd_update cfg wl plugins now now' st force d =
     (case should_be_blocked cfg wl plugins now' (set_stats st d) of
        Inl p \<Rightarrow> Inl p
      | Inr (d1, resolve, block) \<Rightarrow>
          if block \<and> (force \<or> id_last_block_at d1 + cf_block_ttl cfg < now) then
            let d2 = (if force then d1\<lparr>id_force_block := True\<rparr> else d1);
                d3 = d2\<lparr>id_last_block_at := now\<rparr>
            in (case id_geoip d3 of None \<Rightarrow> Inl NilDereference | Some _ \<Rightarrow> Inr (d3, resolve, True))
          else Inr (d1, resolve, False))"

text \<open>\<open>SetHostname\<close>: the statistics it sends to the history carry no counts.\<close>

definition set_hostname :: "string \<Rightarrow> ip_details \<Rightarrow> ip_details \<times> ip_stats" where
  "set_hostname hostname d =
     (d\<lparr>id_hostname := hostname\<rparr>,
      \<lparr>st_total = 0, st_app = 0, st_other = 0, st_ratio = Fin 0, st_ips = 0, st_asn = id_asn d,
       is_ip = id_ip d, is_with_hostname = 0\<rparr>)"

section \<open>When an address is blocked\<close>

definition not_whitelisted :: "whitelist \<Rightarrow> ip_details \<Rightarrow> bool" where
  "not_whitelisted wl d \<longleftrightarrow> (\<exists>r. is_whitelisted wl d = Inr (False, r))"

lemma should_be_blocked_True:
  "should_be_blocked cfg wl plugins now d = Inr (d', resolve, True) \<longleftrightarrow>
     id_hostname d \<noteq> [] \<and> id_hostname d \<noteq> ''resolving'' \<and> \<not> id_whitelisted d \<and> \<not> stale cfg now d \<and>
     not_whitelisted wl d \<and> \<not> resolve \<and>
     (\<exists>reason. block_verdict cfg plugins d = Some reason \<and> d' = d\<lparr>id_block_reason := reason\<rparr>)"
  by (auto simp: should_be_blocked_def not_whitelisted_def Let_def
      split: sum.splits prod.splits bool.splits option.splits if_splits)

lemma should_be_blocked_resolve:
  "should_be_blocked cfg wl plugins now d = Inr (d', True, block) \<longleftrightarrow>
     id_hostname d = [] \<and> \<not> id_whitelisted d \<and> \<not> stale cfg now d \<and> not_whitelisted wl d \<and> \<not> block \<and>
     (\<exists>reason. block_verdict cfg plugins d = Some reason \<and>
        d' = d\<lparr>id_block_reason := reason, id_hostname := ''resolving''\<rparr>)"
  by (auto simp: should_be_blocked_def not_whitelisted_def Let_def
      split: sum.splits prod.splits bool.splits option.splits if_splits)

lemma should_be_blocked_keeps:
  "should_be_blocked cfg wl plugins now d = Inr (d', resolve, block) \<Longrightarrow>
     id_last_block_at d' = id_last_block_at d \<and> id_is_blocked d' = id_is_blocked d \<and> id_ip d' = id_ip d \<and>
     id_asn d' = id_asn d \<and> id_force_block d' = id_force_block d \<and> (id_whitelisted d \<longrightarrow> id_whitelisted d')"
  by (auto simp: should_be_blocked_def Let_def
      split: sum.splits prod.splits bool.splits option.splits if_splits)

lemma set_stats_simps [simp]:
  "id_last_block_at (set_stats st d) = id_last_block_at d" "id_hostname (set_stats st d) = id_hostname d"
  "id_whitelisted (set_stats st d) = id_whitelisted d" "id_is_blocked (set_stats st d) = id_is_blocked d"
  "id_ip (set_stats st d) = id_ip d" "id_force_block (set_stats st d) = id_force_block d" "id_asn (set_stats st d) = id_asn d" "id_geoip (set_stats st d) = id_geoip d"
  by (simp_all add: set_stats_def)

lemma ipd_update_sends:
  assumes "ipd_update cfg wl plugins now now' st force d = Inr (d', resolve, True)"
  shows "id_last_block_at d' = now" and "force \<or> id_last_block_at d + cf_block_ttl cfg < now"
    and "id_hostname d \<noteq> []" and "id_hostname d \<noteq> ''resolving''" and "\<not> id_whitelisted d"
    and "not_whitelisted wl (set_stats st d)" and "block_verdict cfg plugins (set_stats st d) \<noteq> None"
proof -
  from assms obtain d1 where d1: "should_be_blocked cfg wl plugins now' (set_stats st d) = Inr (d1, resolve, True)"
    and last: "force \<or> id_last_block_at d1 + cf_block_ttl cfg < now" and d': "id_last_block_at d' = now"
    by (auto simp: ipd_update_def Let_def split: sum.splits prod.splits if_splits option.splits)
  show "id_last_block_at d' = now" by (rule d')
  show "force \<or> id_last_block_at d + cf_block_ttl cfg < now"
    using last should_be_blocked_keeps [OF d1] by simp
  show "id_hostname d \<noteq> []" and "id_hostname d \<noteq> ''resolving''" and "\<not> id_whitelisted d"
    and "not_whitelisted wl (set_stats st d)" and "block_verdict cfg plugins (set_stats st d) \<noteq> None"
    using d1 [unfolded should_be_blocked_True] by auto
qed

lemma ipd_update_keeps:
  assumes "ipd_update cfg wl plugins now now' st force d = Inr (d', resolve, False)"
  shows "id_last_block_at d' = id_last_block_at d"
proof -
  from assms obtain b where "should_be_blocked cfg wl plugins now' (set_stats st d) = Inr (d', resolve, b)"
    by (auto simp: ipd_update_def Let_def split: sum.splits prod.splits if_splits option.splits)
  then show ?thesis using should_be_blocked_keeps by fastforce
qed

text \<open>A run of updates from the history's channel, and the instants at which the address is sent to be blocked.\<close>

fun update_run :: "config \<Rightarrow> whitelist \<Rightarrow> plugin_decision list \<Rightarrow> (time \<times> time \<times> ip_stats) list \<Rightarrow> ip_details
    \<Rightarrow> panic + time list \<times> ip_details" where
  "update_run cfg wl plugins [] d = Inr ([], d)"
| "update_run cfg wl plugins ((now, now', st) # es) d =
     (case ipd_update cfg wl plugins now now' st False d of
        Inl p \<Rightarrow> Inl p
      | Inr (d', resolve, send) \<Rightarrow>
          (case update_run cfg wl plugins es d' of
             Inl p \<Rightarrow> Inl p
           | Inr (ts, d'') \<Rightarrow> Inr (if send then now # ts else ts, d'')))"

lemma update_run_gaps:
  assumes "0 \<le> cf_block_ttl cfg"
  shows "update_run cfg wl plugins es d = Inr (ts, d') \<Longrightarrow>
    sorted_wrt (\<lambda>a b. a + cf_block_ttl cfg < b) ts \<and> (\<forall>t \<in> set ts. id_last_block_at d + cf_block_ttl cfg < t)"
proof (induction es arbitrary: d ts)
  case Nil
  then show ?case by simp
next
  case (Cons e es)
  obtain now now' st where e: "e = (now, now', st)" by (cases e) auto
  from Cons.prems obtain d1 resolve send ts' where
    up: "ipd_update cfg wl plugins now now' st False d = Inr (d1, resolve, send)"
    and run: "update_run cfg wl plugins es d1 = Inr (ts', d')" and ts: "ts = (if send then now # ts' else ts')"
    by (auto simp: e split: sum.splits prod.splits)
  note IH = Cons.IH [OF run]
  show ?case
  proof (cases send)
    case False
    with IH ts ipd_update_keeps up show ?thesis by fastforce
  next
    case True
    with up have "ipd_update cfg wl plugins now now' st False d = Inr (d1, resolve, True)" by simp
    from ipd_update_sends(1,2) [OF this]
    have "id_last_block_at d1 = now" and "id_last_block_at d + cf_block_ttl cfg < now" by simp_all
    with IH ts True assms show ?thesis by fastforce
  qed
qed

section \<open>Properties\<close>

text \<open>
  C10: An address is found to be blocked exactly when its hostname is known, it is not whitelisted, it was
  seen in the last window, and it made too many app requests, or enough with too high a ratio, or a plugin
  objects.
\<close>

theorem should_be_blocked_iff:
  "(\<exists>d' resolve. should_be_blocked cfg wl plugins now d = Inr (d', resolve, True)) \<longleftrightarrow>
     id_hostname d \<noteq> [] \<and> id_hostname d \<noteq> ''resolving'' \<and> \<not> id_whitelisted d \<and> \<not> stale cfg now d \<and>
     not_whitelisted wl d \<and>
     (id_app d > cf_max_app cfg \<or> (id_app d > cf_min_app cfg \<and> cf_max_ratio cfg \<le> id_ratio d) \<or>
      (\<exists>why. plugin_verdict plugins (details_ip_stats d) = Some why))"
  unfolding should_be_blocked_True by (auto simp: block_verdict_def)

text \<open>
  The resolver is asked once: an address whose hostname is unknown and that has to be blocked is marked
  as being resolved, is not blocked by that call, and until its hostname is set no later call asks again.
\<close>

theorem resolve_once:
  assumes "should_be_blocked cfg wl plugins now d = Inr (d', True, block)"
  shows "\<not> block \<and> id_hostname d = [] \<and> id_hostname d' = ''resolving'' \<and>
    should_be_blocked cfg' wl' plugins' now' d' = Inr (d', False, False)"
  using assms [unfolded should_be_blocked_resolve] by (auto simp: should_be_blocked_def)


text \<open>
  An update that sends an address to be blocked has found it neither whitelisted, nor without a
  hostname, nor being resolved, and has found a reason.
\<close>

theorem update_sends_only_blockable:
  assumes "ipd_update cfg wl plugins now now' st force d = Inr (d', resolve, True)"
  shows "\<not> id_whitelisted d \<and> id_hostname d \<notin> {[], ''resolving''} \<and> not_whitelisted wl (set_stats st d) \<and>
    block_verdict cfg plugins (set_stats st d) \<noteq> None \<and> id_last_block_at d' = now"
  using ipd_update_sends [OF assms] by simp

section \<open>Witnesses\<close>

definition wit_as :: asn where
  "wit_as = \<lparr>asn_network = None, asn_cidr = ''10.0.0.0/8'', asn_number = 7, asn_org = ''Example''\<rparr>"

definition wit_details :: "string \<Rightarrow> int \<Rightarrow> ip_details" where
  "wit_details hostname app =
     (new_details (\<lambda>_. Some wit_as) (\<lambda>_. Some ''Wien'') 0 (v4_prefix @ [10, 1, 2, 3]))
       \<lparr>id_hostname := hostname, id_app := app, id_total := app, id_ratio := Fin 1\<rparr>"

definition wit_stats :: ip_stats where
  "wit_stats = \<lparr>st_total = 400, st_app = 301, st_other = 99, st_ratio = Fin (3 / 4), st_ips = 0, st_asn = None,
     is_ip = v4_prefix @ [10, 1, 2, 3], is_with_hostname = 0\<rparr>"

lemmas wit_defs = wit_cfg_def wit_as_def wit_details_def wit_stats_def new_details_def new_whitelist_def

lemma wit_not_wl: "is_whitelisted new_whitelist (wit_details h a) = Inr (False, [])"
  by (simp add: is_whitelisted_def wit_defs)

lemma wit_not_wl_stats: "is_whitelisted new_whitelist (set_stats st (wit_details h a)) = Inr (False, [])"
  by (simp add: is_whitelisted_def wit_defs set_stats_def)

lemma resolve_once_witness:
  "\<exists>d'. should_be_blocked wit_cfg new_whitelist [] 1 (wit_details [] 301) = Inr (d', True, False) \<and>
     should_be_blocked wit_cfg new_whitelist [] 2 d' = Inr (d', False, False)"
proof -
  let ?d = "(wit_details [] 301)\<lparr>id_block_reason := TooManyRequests 301 300, id_hostname := ''resolving''\<rparr>"
  have "should_be_blocked wit_cfg new_whitelist [] 1 (wit_details [] 301) = Inr (?d, True, False)"
    using wit_not_wl [of "[]" 301]
    by (simp add: should_be_blocked_def stale_def block_verdict_def Let_def) (simp add: wit_defs i64_def)
  from resolve_once [OF this, of wit_cfg new_whitelist "[]" 2] this show ?thesis by blast
qed

definition wit_blocked :: ip_details where
  "wit_blocked = (set_stats wit_stats (wit_details ''bot.example.org'' 301))
     \<lparr>id_block_reason := TooManyRequests 301 300, id_last_block_at := 1000\<rparr>"

lemma wit_update:
  "ipd_update wit_cfg new_whitelist [] 1000 1001 wit_stats False (wit_details ''bot.example.org'' 301) =
     Inr (wit_blocked, False, True)"
  using wit_not_wl_stats [of wit_stats "''bot.example.org''" 301]
  by (simp add: ipd_update_def should_be_blocked_def stale_def block_verdict_def Let_def)
    (simp add: wit_defs i64_def set_stats_def zero_time_def wit_blocked_def)

lemma wit_update_again:
  "ipd_update wit_cfg new_whitelist [] 2000 2001 wit_stats False wit_blocked = Inr (wit_blocked, False, False)"
proof -
  have "is_whitelisted new_whitelist (set_stats wit_stats wit_blocked) = Inr (False, [])"
    by (simp add: is_whitelisted_def wit_blocked_def wit_defs set_stats_def)
  then show ?thesis
    by (simp add: ipd_update_def should_be_blocked_def stale_def block_verdict_def Let_def)
      (simp add: wit_defs i64_def set_stats_def zero_time_def wit_blocked_def)
qed


lemma update_sends_only_blockable_witness:
  "not_whitelisted new_whitelist (set_stats wit_stats (wit_details ''bot.example.org'' 301))"
  using update_sends_only_blockable [OF wit_update] by simp

end
