(* ===== verification/History.thy ===== *)
theory History
  imports IPData
begin

text \<open>
  \<^verbatim>\<open>history.go\<close>: all addresses seen. \<open>History.data\<close> maps the printed address to a pointer, and pointers
  leave the history (on \<open>BlockChan\<close>, to the web socket) and outlive the entry of the map; so the \<open>IPData\<close>
  structs live in a store, a list that only grows, and a pointer is an index into it. The order of the map
  is the order of the list that stands for it.
\<close>

section \<open>State\<close>

text \<open>What the history is built over: the parameters, the configuration and the plugins.\<close>

record ('m, 'n, 'db) env =
  en_windows :: "(int, int, 'm) treemap_api"
  en_slices :: "(time, stat, 'n) treemap_api"
  en_store :: "'db kvstore_api"
  en_marshal :: "stat \<Rightarrow> store_error + string"
  en_asndb :: "ip \<Rightarrow> asn option"
  en_geoipdb :: "ip \<Rightarrow> string option"
  en_plugins :: "plugin_decision list"
  en_config :: config

record ('m, 'n) history =
  hi_data :: "(string \<times> nat) list"
  hi_heap :: "'m ip_data list"
  hi_stats :: "'n stats_windows"

definition hi_lookup :: "('m, 'n) history \<Rightarrow> string \<Rightarrow> nat option" where
  "hi_lookup h ipstr = map_of (hi_data h) ipstr"

definition hi_details :: "('m, 'n) history \<Rightarrow> nat \<Rightarrow> ip_details" where
  "hi_details h a = ipd_details (hi_heap h ! a)"

definition hi_set_details :: "nat \<Rightarrow> ip_details \<Rightarrow> ('m, 'n) history \<Rightarrow> ('m, 'n) history" where
  "hi_set_details a d h = h\<lparr>hi_heap := (hi_heap h)[a := (hi_heap h ! a)\<lparr>ipd_details := d\<rparr>]\<rparr>"

text \<open>\<open>NewHistory\<close>: its goroutine calls \<open>time.NewTicker\<close>, which panics unless the interval is positive.\<close>

definition new_history :: "('m, 'n, 'db) env \<Rightarrow> panic + ('m, 'n) history" where
  "new_history E =
     (if cf_window_size (en_config E) \<le> 0 then Inl (InvalidInput ''non-positive interval for NewTicker'')
      else Inr \<lparr>hi_data = [], hi_heap = [], hi_stats = new_stats_windows (en_slices E) (en_config E)\<rparr>)"

section \<open>Adding requests\<close>

text \<open>The clock readings of one \<open>Add\<close>: those of \<open>NewIPData\<close>, \<open>IPData.Add\<close> and \<open>StatsWindows.Add\<close>.\<close>

record add_clock =
  ac_new :: "time \<times> time \<times> time"
  ac_add :: time
  ac_requests :: expire_clock
  ac_stats :: "time \<times> time"

text \<open>What \<open>Add\<close> gives back: the pointer and whether it is new, the marked request, the statistics sent.\<close>

record add_result =
  ar_ipd :: "nat option"
  ar_new :: bool
  ar_request :: request
  ar_stats :: "ip_stats option"

definition ensure_ip :: "('m, 'n, 'db) env \<Rightarrow> whitelist \<Rightarrow> time \<times> time \<times> time \<Rightarrow> ip \<Rightarrow> ('m, 'n) history
    \<Rightarrow> panic + ('m, 'n) history \<times> nat \<times> bool" where
  "ensure_ip E wl now ip h =
     (case hi_lookup h (ip_string ip) of
        Some a \<Rightarrow> Inr (h, a, False)
      | None \<Rightarrow>
          (case new_ip_data (en_windows E) (en_asndb E) (en_geoipdb E) wl
                  (fst now) (fst (snd now)) (snd (snd now)) ip (en_config E) of
             Inl p \<Rightarrow> Inl p
           | Inr ipd \<Rightarrow>
               let a = length (hi_heap h)
               in Inr (h\<lparr>hi_data := (ip_string ip, a) # hi_data h, hi_heap := hi_heap h @ [ipd]\<rparr>, a, True)))"

definition history_add :: "('m, 'n, 'db) env \<Rightarrow> whitelist \<Rightarrow> add_clock \<Rightarrow> request \<Rightarrow> ('m, 'n) history \<Rightarrow> 'db
    \<Rightarrow> panic + ('m, 'n) history \<times> 'db \<times> add_result" where
  "history_add E wl ck r h db =
     (let ip = parse_ip (rq_source r)
      in if ip = [] then Inr (h, db, \<lparr>ar_ipd = None, ar_new = False, ar_request = r, ar_stats = None\<rparr>)
         else case ensure_ip E wl (ac_new ck) ip h of
                Inl p \<Rightarrow> Inl p
              | Inr (h1, a, new_ip) \<Rightarrow>
                  let (ipd, r', st, decision) =
                        ipd_add (en_windows E) (ac_requests ck) True (ac_add ck) r (hi_heap h1 ! a);
                      h2 = h1\<lparr>hi_heap := (hi_heap h1)[a := ipd]\<rparr>;
                      (h3, db') = (case sw_add (en_slices E) (en_store E) (en_marshal E) (fst (ac_stats ck))
                                      (snd (ac_stats ck)) decision (rq_time r) (hi_stats h2) db of
                                     Inl err \<Rightarrow> (h2, db)
                                   | Inr (sw, db') \<Rightarrow> (h2\<lparr>hi_stats := sw\<rparr>, db'))
                  in Inr (h3, db', \<lparr>ar_ipd = Some a, ar_new = new_ip, ar_request = r', ar_stats = st\<rparr>))"

section \<open>Expiry\<close>

text \<open>
  \<open>expire\<close>: an address whose requests cannot be expired yet is passed over; one that has nothing left is
  deleted from the map and announced. Each address has its own clock readings.
\<close>

fun history_expire_loop :: "('m, 'n, 'db) env \<Rightarrow> (string \<Rightarrow> time \<times> expire_clock) \<Rightarrow> (string \<times> nat) list
    \<Rightarrow> ('m, 'n) history \<Rightarrow> ('m, 'n) history \<times> string list" where
  "history_expire_loop E ck [] h = (h, [])"
| "history_expire_loop E ck ((ipstr, a) # rest) h =
     (if \<not> requests_can_expire (fst (ck ipstr)) (ipd_requests (hi_heap h ! a)) then history_expire_loop E ck rest h
      else
        let (ipd, n) = ipd_expire (en_windows E) (snd (ck ipstr)) (hi_heap h ! a);
            h1 = h\<lparr>hi_heap := (hi_heap h)[a := ipd]\<rparr>
        in if n \<le> 0 then
             let (h2, gone) = history_expire_loop E ck rest (h1\<lparr>hi_data := AList.delete ipstr (hi_data h1)\<rparr>)
             in (h2, ipstr # gone)
           else history_expire_loop E ck rest h1)"

definition history_expire :: "('m, 'n, 'db) env \<Rightarrow> (string \<Rightarrow> time \<times> expire_clock) \<Rightarrow> time \<Rightarrow> ('m, 'n) history
    \<Rightarrow> ('m, 'n) history \<times> string list" where
  "history_expire E ck now h =
     (let h1 = h\<lparr>hi_stats := sw_expire (en_slices E) now (hi_stats h)\<rparr>
      in history_expire_loop E ck (hi_data h1) h1)"

section \<open>Updates\<close>

text \<open>
  \<open>update\<close>: an address that is not in the history, or statistics without requests, end the whole loop:
  the code returns where it could continue. The results are the pointers to resolve and to block.
\<close>

fun history_update :: "('m, 'n, 'db) env \<Rightarrow> whitelist \<Rightarrow> bool \<Rightarrow> (time \<times> time \<times> ip_stats) list \<Rightarrow> ('m, 'n) history
    \<Rightarrow> panic + ('m, 'n) history \<times> nat list \<times> nat list" where
  "history_update E wl force [] h = Inr (h, [], [])"
| "history_update E wl force ((now, now', s) # ss) h =
     (case hi_lookup h (ip_string (is_ip s)) of
        None \<Rightarrow> Inr (h, [], [])
      | Some a \<Rightarrow>
          if st_total s \<le> 0 then Inr (h, [], [])
          else case ipd_update (en_config E) wl (en_plugins E) now now' s force (hi_details h a) of
                 Inl p \<Rightarrow> Inl p
               | Inr (d, resolve, send) \<Rightarrow>
                   (case history_update E wl force ss (hi_set_details a d h) of
                      Inl p \<Rightarrow> Inl p
                    | Inr (h', resolves, sends) \<Rightarrow>
                        Inr (h', (if resolve then a # resolves else resolves), (if send then a # sends else sends))))"

text \<open>\<open>SetHostname\<close>: the statistics it sends to the channel, if the address is in the history.\<close>

definition history_set_hostname :: "ip \<Rightarrow> string \<Rightarrow> ('m, 'n) history \<Rightarrow> ('m, 'n) history \<times> ip_stats option" where
  "history_set_hostname ip hostname h =
     (case hi_lookup h (ip_string ip) of
        None \<Rightarrow> (h, None)
      | Some a \<Rightarrow> let (d, st) = set_hostname hostname (hi_details h a) in (hi_set_details a d h, Some st))"

section \<open>Reading\<close>

definition history_size :: "('m, 'n) history \<Rightarrow> int" where
  "history_size h = int (length (hi_data h))"

definition history_each :: "('m, 'n) history \<Rightarrow> (string \<times> ip_details) list" where
  "history_each h = map (\<lambda>(k, a). (k, hi_details h a)) (hi_data h)"

text \<open>\<open>TotalStats\<close>: the loop over the addresses, then the division.\<close>

definition history_total_stats :: "('m, 'n) history \<Rightarrow> ip_stats" where
  "history_total_stats h =
     (let (total, app, other, hosts) =
        foldl (\<lambda>(total, app, other, hosts) (k, d).
            (i64 (total + id_total d), i64 (app + id_app d), i64 (other + id_other d),
             if id_hostname d \<noteq> [] then i64 (hosts + 1) else hosts))
          (0, 0, 0, 0) (history_each h)
      in \<lparr>st_total = total, st_app = app, st_other = other, st_ratio = f64_div (f64_of_int app) (f64_of_int total),
          st_ips = 0, st_asn = None, is_ip = [], is_with_hostname = hosts\<rparr>)"

definition history_ip_data :: "('m, 'n) history \<Rightarrow> ip \<Rightarrow> 'm ip_data option" where
  "history_ip_data h ip = map_option (\<lambda>a. hi_heap h ! a) (hi_lookup h (ip_string ip))"

text \<open>\<open>IPDetails\<close> takes the address of a field of the entry: of a nil pointer, if there is none.\<close>

definition history_ip_details :: "('m, 'n) history \<Rightarrow> ip \<Rightarrow> panic + ip_details" where
  "history_ip_details h ip =
     (case history_ip_data h ip of None \<Rightarrow> Inl NilDereference | Some ipd \<Rightarrow> Inr (ipd_details ipd))"

section \<open>The invariant of the map\<close>

text \<open>
  Keys and pointers are distinct, every pointer is allocated, and every entry is found under its own
  address as \<open>IP.String\<close> prints it.
\<close>

definition hist_inv :: "('m, 'n) history \<Rightarrow> bool" where
  "hist_inv h \<longleftrightarrow> distinct (map fst (hi_data h)) \<and> distinct (map snd (hi_data h)) \<and>
     list_all (\<lambda>(k, a). a < length (hi_heap h) \<and> k = ip_string (id_ip (hi_details h a))) (hi_data h)"

lemma hist_inv_lookup:
  assumes "hist_inv h" and "hi_lookup h k = Some a"
  shows "a < length (hi_heap h)" and "ip_string (id_ip (hi_details h a)) = k" and "(k, a) \<in> set (hi_data h)"
proof -
  show mem: "(k, a) \<in> set (hi_data h)" using assms(2) unfolding hi_lookup_def by (rule map_of_SomeD)
  have all: "list_all (\<lambda>(k, a). a < length (hi_heap h) \<and> k = ip_string (id_ip (hi_details h a))) (hi_data h)"
    using assms(1) by (simp add: hist_inv_def)
  show "a < length (hi_heap h)" and "ip_string (id_ip (hi_details h a)) = k"
    using all mem by (auto simp: list_all_iff)
qed

lemma hi_details_set [simp]:
  "hi_details (hi_set_details a d h) b = (if b = a \<and> a < length (hi_heap h) then d else hi_details h b)"
  by (auto simp: hi_details_def hi_set_details_def nth_update_if)

lemma hi_set_details_simps [simp]:
  "hi_data (hi_set_details a d h) = hi_data h" "length (hi_heap (hi_set_details a d h)) = length (hi_heap h)"
  "hi_stats (hi_set_details a d h) = hi_stats h" "hi_lookup (hi_set_details a d h) k = hi_lookup h k"
  by (simp_all add: hi_set_details_def hi_lookup_def)

lemma hist_inv_set_details:
  "hist_inv h \<Longrightarrow> id_ip d = id_ip (hi_details h a) \<Longrightarrow> hist_inv (hi_set_details a d h)"
  by (auto simp: hist_inv_def list_all_iff)

text \<open>A change of the store that keeps the addresses.\<close>

lemma hist_inv_heap:
  assumes "hist_inv h" and "hi_data h' = hi_data h" and "length (hi_heap h') = length (hi_heap h)"
    and "\<And>a. id_ip (hi_details h' a) = id_ip (hi_details h a)"
  shows "hist_inv h'"
  using assms by (simp add: hist_inv_def)

lemma new_history_inv: "new_history E = Inr h \<Longrightarrow> hist_inv h"
  by (auto simp: new_history_def hist_inv_def split: if_splits)

lemma new_ip_data_ip:
  "new_ip_data T asndb geoipdb wl now now' now'' ip cfg = Inr ipd \<Longrightarrow> id_ip (ipd_details ipd) = ip"
  by (auto simp: new_ip_data_def new_details_def Let_def split: sum.splits)

lemma ensure_ip_inv:
  assumes inv: "hist_inv h" and run: "ensure_ip E wl now ip h = Inr (h', a, new_ip)"
  shows "hist_inv h'" and "a < length (hi_heap h')" and "hi_lookup h' (ip_string ip) = Some a"
proof -
  have "hist_inv h' \<and> a < length (hi_heap h') \<and> hi_lookup h' (ip_string ip) = Some a"
  proof (cases "hi_lookup h (ip_string ip)")
    case (Some b)
    with run hist_inv_lookup(1) [OF inv Some] inv show ?thesis by (simp add: ensure_ip_def)
  next
    case None
    let ?new = "new_ip_data (en_windows E) (en_asndb E) (en_geoipdb E) wl (fst now) (fst (snd now)) (snd (snd now)) ip (en_config E)"
    obtain ipd where ipd: "?new = Inr ipd"
      using run None by (cases ?new) (simp_all add: ensure_ip_def)
    have h': "h' = h\<lparr>hi_data := (ip_string ip, length (hi_heap h)) # hi_data h, hi_heap := hi_heap h @ [ipd]\<rparr>"
      and a: "a = length (hi_heap h)"
      using run None ipd by (auto simp: ensure_ip_def Let_def)
    have all: "list_all (\<lambda>(k, a). a < length (hi_heap h) \<and> k = ip_string (id_ip (hi_details h a))) (hi_data h)"
      and dist: "distinct (map fst (hi_data h))" "distinct (map snd (hi_data h))"
      using inv by (simp_all add: hist_inv_def)
    from None have key: "ip_string ip \<notin> fst ` set (hi_data h)" by (simp add: hi_lookup_def map_of_eq_None_iff)
    have ptr: "length (hi_heap h) \<notin> snd ` set (hi_data h)" using all by (auto simp: list_all_iff)
    have old: "hi_details h' b = hi_details h b" if "b < length (hi_heap h)" for b
      using that by (simp add: hi_details_def h' nth_append)
    have new: "hi_details h' (length (hi_heap h)) = ipd_details ipd"
      by (simp add: hi_details_def h')
    have "list_all (\<lambda>(k, a). a < length (hi_heap h') \<and> k = ip_string (id_ip (hi_details h' a))) (hi_data h)"
      using all by (rule list.pred_mono_strong) (simp add: old split: prod.splits, simp add: h')
    then have "hist_inv h'"
      using dist key ptr new new_ip_data_ip [OF ipd] by (auto simp: hist_inv_def h')
    then show ?thesis by (simp add: h' a hi_lookup_def)
  qed
  then show "hist_inv h'" and "a < length (hi_heap h')" and "hi_lookup h' (ip_string ip) = Some a" by auto
qed

lemma ipd_add_ip: "id_ip (ipd_details (fst (ipd_add T ck chan now r ipd))) = id_ip (ipd_details ipd)"
  by (simp add: ipd_add_def Let_def split: prod.splits)

lemma ipd_expire_details [simp]: "ipd_details (fst (ipd_expire T ck ipd)) = ipd_details ipd"
  by (simp add: ipd_expire_def split: prod.splits)

lemma history_add_cases:
  assumes run: "history_add E wl ck r h db = Inr (h', db', res)" and ip: "parse_ip (rq_source r) \<noteq> []"
  obtains h1 a new_ip ipd where "ensure_ip E wl (ac_new ck) (parse_ip (rq_source r)) h = Inr (h1, a, new_ip)"
    and "fst (ipd_add (en_windows E) (ac_requests ck) True (ac_add ck) r (hi_heap h1 ! a)) = ipd"
    and "hi_data h' = hi_data h1" and "hi_heap h' = (hi_heap h1)[a := ipd]"
    and "ar_ipd res = Some a" and "ar_new res = new_ip"
  using run ip that
  by (fastforce simp: history_add_def Let_def split: sum.splits prod.splits)

lemma history_add_inv:
  assumes inv: "hist_inv h" and run: "history_add E wl ck r h db = Inr (h', db', res)"
  shows "hist_inv h'"
proof (cases "parse_ip (rq_source r) = []")
  case True
  with run inv show ?thesis by (simp add: history_add_def)
next
  case False
  obtain h1 a new_ip ipd where h1: "ensure_ip E wl (ac_new ck) (parse_ip (rq_source r)) h = Inr (h1, a, new_ip)"
    and ipd: "fst (ipd_add (en_windows E) (ac_requests ck) True (ac_add ck) r (hi_heap h1 ! a)) = ipd"
    and h': "hi_data h' = hi_data h1" "hi_heap h' = (hi_heap h1)[a := ipd]"
    using history_add_cases [OF run False] .
  have "id_ip (hi_details h' b) = id_ip (hi_details h1 b)" for b
    using ipd_add_ip by (auto simp: hi_details_def h' nth_update_if simp flip: ipd)
  then show ?thesis
    using ensure_ip_inv(1) [OF inv h1] h' by (intro hist_inv_heap [of h1 h']) auto
qed

lemma hist_inv_delete:
  assumes "hist_inv h"
  shows "hist_inv (h\<lparr>hi_data := AList.delete k (hi_data h)\<rparr>)"
proof -
  have sub: "set (AList.delete k (hi_data h)) \<subseteq> set (hi_data h)" by (auto simp: AList.delete_eq)
  have "distinct (map snd (AList.delete k (hi_data h)))"
    using assms by (simp add: hist_inv_def AList.delete_eq distinct_map_filter)
  then show ?thesis
    using assms sub by (auto simp: hist_inv_def AList.distinct_delete list_all_iff hi_details_def)
qed

lemma history_expire_loop_inv: "hist_inv h \<Longrightarrow> hist_inv (fst (history_expire_loop E ck rest h))"
proof (induction rest arbitrary: h)
  case Nil
  then show ?case by simp
next
  case (Cons e rest)
  obtain k a where e: "e = (k, a)" by force
  let ?h1 = "h\<lparr>hi_heap := (hi_heap h)[a := fst (ipd_expire (en_windows E) (snd (ck k)) (hi_heap h ! a))]\<rparr>"
  have h1: "hist_inv ?h1"
    using Cons.prems
  proof (rule hist_inv_heap)
    show "id_ip (hi_details ?h1 b) = id_ip (hi_details h b)" for b
      by (auto simp: hi_details_def nth_update_if)
  qed simp_all
  have h2: "hist_inv (?h1\<lparr>hi_data := AList.delete k (hi_data h)\<rparr>)"
    using hist_inv_delete [OF h1, of k] by simp
  show ?case
    using Cons.IH [OF Cons.prems] Cons.IH [OF h1] Cons.IH [OF h2]
    by (auto simp: e Let_def split: prod.splits)
qed

lemma history_expire_inv:
  assumes "hist_inv h"
  shows "hist_inv (fst (history_expire E ck now h))"
proof -
  have "hist_inv (h\<lparr>hi_stats := sw_expire (en_slices E) now (hi_stats h)\<rparr>)"
    using assms by (simp add: hist_inv_def hi_details_def)
  then show ?thesis by (simp add: history_expire_def Let_def history_expire_loop_inv)
qed

lemma ipd_update_ip:
  "ipd_update cfg wl plugins now now' st force d = Inr (d', resolve, send) \<Longrightarrow>
     id_ip d' = id_ip d \<and> id_is_blocked d' = id_is_blocked d \<and> (force \<or> id_force_block d' = id_force_block d)"
  using should_be_blocked_keeps [of cfg wl plugins now' "set_stats st d"]
  by (fastforce simp: ipd_update_def Let_def split: sum.splits prod.splits if_splits option.splits)

lemma history_update_inv:
  "hist_inv h \<Longrightarrow> history_update E wl force ss h = Inr (h', resolves, sends) \<Longrightarrow> hist_inv h'"
proof (induction ss arbitrary: h resolves sends)
  case Nil
  then show ?case by simp
next
  case (Cons e ss)
  obtain now now' st where e: "e = (now, now', st)" by (cases e) auto
  show ?case
  proof (cases "hi_lookup h (ip_string (is_ip st))")
    case None
    with Cons.prems show ?thesis by (simp add: e)
  next
    case (Some a)
    show ?thesis
    proof (cases "st_total st \<le> 0")
      case True
      with Some Cons.prems show ?thesis by (simp add: e)
    next
      case False
      with Some Cons.prems(2) obtain d resolve send rs sds where
        up: "ipd_update (en_config E) wl (en_plugins E) now now' st force (hi_details h a) = Inr (d, resolve, send)"
        and rest: "history_update E wl force ss (hi_set_details a d h) = Inr (h', rs, sds)"
        by (auto simp: e split: sum.splits prod.splits)
      have "hist_inv (hi_set_details a d h)"
        using Cons.prems(1) ipd_update_ip [OF up] by (intro hist_inv_set_details) auto
      from Cons.IH [OF this rest] show ?thesis .
    qed
  qed
qed

lemma history_set_hostname_inv: "hist_inv h \<Longrightarrow> hist_inv (fst (history_set_hostname ip hostname h))"
  by (auto simp: history_set_hostname_def set_hostname_def intro: hist_inv_set_details split: option.splits)

lemma history_set_hostname_inv':
  "history_set_hostname ip hostname h = (h', st) \<Longrightarrow> hist_inv h \<Longrightarrow> hist_inv h'"
  using history_set_hostname_inv [of h ip hostname] by simp

lemma history_expire_loop_Cons:
  "fst (history_expire_loop E ck ((k, a) # rest) h) =
     (if \<not> requests_can_expire (fst (ck k)) (ipd_requests (hi_heap h ! a)) then fst (history_expire_loop E ck rest h)
      else
        let h1 = h\<lparr>hi_heap := (hi_heap h)[a := fst (ipd_expire (en_windows E) (snd (ck k)) (hi_heap h ! a))]\<rparr>
        in if snd (ipd_expire (en_windows E) (snd (ck k)) (hi_heap h ! a)) \<le> 0
           then fst (history_expire_loop E ck rest (h1\<lparr>hi_data := AList.delete k (hi_data h1)\<rparr>))
           else fst (history_expire_loop E ck rest h1))"
  by (simp add: Let_def split: prod.splits)

section \<open>Properties\<close>

lemma history_update_lookup:
  "history_update E wl force ss h = Inr (h', rs, sds) \<Longrightarrow> hi_lookup h' k = hi_lookup h k"
proof (induction ss arbitrary: h rs sds)
  case Nil
  then show ?case by simp
next
  case (Cons e ss)
  obtain now now' st where e: "e = (now, now', st)" by (cases e) auto
  show ?case
    using Cons.prems Cons.IH
    by (fastforce simp: e split: option.splits if_splits sum.splits prod.splits)
qed

text \<open>
  C40: A batch of updates ends at the first address that is no longer in the history: what follows it in
  the batch is dropped, although those addresses are to be blocked with their network.
\<close>

theorem update_drops_the_rest:
  assumes "hi_lookup h (ip_string (is_ip s)) = None"
  shows "history_update E wl force (pre @ (now, now', s) # post) h = history_update E wl force pre h"
  using assms
proof (induction pre arbitrary: h)
  case Nil
  then show ?case by simp
next
  case (Cons e pre)
  obtain n n' st where e: "e = (n, n', st)" by (cases e) auto
  show ?case
    using Cons.IH Cons.prems by (simp add: e split: option.split sum.split prod.split)
qed

text \<open>
  The update that \<open>SetHostname\<close> sends once an address is resolved has no effect: its request count
  is zero, which \<open>update\<close> ignores. An address that was to be blocked while it was being resolved is
  not looked at again before its next request.
\<close>

theorem set_hostname_update_ignored:
  assumes "history_set_hostname ip hostname h = (h', Some st)"
  shows "history_update E wl force [(now, now', st)] h' = Inr (h', [], [])"
  using assms
  by (auto simp: history_set_hostname_def set_hostname_def split: option.splits)

text \<open>
  \<open>Add\<close> counts every request whose source parses exactly once in the statistics, under its own time,
  unless the previous slice cannot be marshalled.
\<close>

theorem history_add_counts:
  assumes "treemap (en_slices E)" and "sw_rep (en_slices E) (hi_stats h) D"
    and "history_add E wl ck r h db = Inr (h', db', res)" and "parse_ip (rq_source r) \<noteq> []"
    and "\<And>st. \<not> isl (en_marshal E st)"
  shows "\<exists>d. sw_rep (en_slices E) (hi_stats h') (add_mset (d, rq_time r) D)"
proof -
  obtain h1 a new_ip where h1: "ensure_ip E wl (ac_new ck) (parse_ip (rq_source r)) h = Inr (h1, a, new_ip)"
    using history_add_cases [OF assms(3,4)] by blast
  have stats: "hi_stats h1 = hi_stats h"
    using h1 by (auto simp: ensure_ip_def Let_def split: option.splits sum.splits)
  obtain ipd r' st d where add: "ipd_add (en_windows E) (ac_requests ck) True (ac_add ck) r (hi_heap h1 ! a) = (ipd, r', st, d)"
    by (metis prod.collapse)
  let ?h2 = "h1\<lparr>hi_heap := (hi_heap h1)[a := ipd]\<rparr>"
  obtain sw db2 where sw: "sw_add (en_slices E) (en_store E) (en_marshal E) (fst (ac_stats ck))
      (snd (ac_stats ck)) d (rq_time r) (hi_stats ?h2) db = Inr (sw, db2)"
    by (rule sw_add_ok [OF assms(5)])
  have "hi_stats h' = sw"
    using assms(3,4) h1 add sw by (auto simp: history_add_def Let_def)
  then show ?thesis
    using sw_add_rep [OF assms(1) _ sw] assms(2) stats by auto
qed

section \<open>Witnesses\<close>

definition wit_env :: "((int, int) RBT.rbt, (time, stat) RBT.rbt, memdb) env" where
  "wit_env = \<lparr>en_windows = rbt_api, en_slices = rbt_api, en_store = mem_kv, en_marshal = (\<lambda>_. Inr ''{}''),
     en_asndb = (\<lambda>_. Some wit_as), en_geoipdb = (\<lambda>_. Some ''Wien''), en_plugins = [], en_config = wit_cfg\<rparr>"

definition wit_addr :: ip where
  "wit_addr = v4_prefix @ [10, 1, 2, 3]"

definition wit_h0 :: "((int, int) RBT.rbt, (time, stat) RBT.rbt) history" where
  "wit_h0 = \<lparr>hi_data = [], hi_heap = [], hi_stats = new_stats_windows rbt_api wit_cfg\<rparr>"

definition wit_h1 :: "((int, int) RBT.rbt, (time, stat) RBT.rbt) history" where
  "wit_h1 = \<lparr>hi_data = [(''10.1.2.3'', 0)],
     hi_heap = [\<lparr>ipd_details = wit_details ''bot.example.org'' 301, ipd_requests = new_requests rbt_api 0 0 wit_addr wit_cfg\<rparr>],
     hi_stats = new_stats_windows rbt_api wit_cfg\<rparr>"

definition wit_unknown :: ip_stats where
  "wit_unknown = wit_stats\<lparr>is_ip := v4_prefix @ [10, 9, 9, 9]\<rparr>"

lemma wit_addr_string: "ip_string (v4_prefix @ [10, 1, 2, 3]) = ''10.1.2.3''"
  by code_simp

lemma wit_unknown_string: "ip_string (is_ip wit_unknown) = ''10.9.9.9''"
  by code_simp

lemma wit_stats_total: "st_total wit_stats = 400" "is_ip wit_stats = v4_prefix @ [10, 1, 2, 3]"
  by (simp_all add: wit_stats_def)

lemma wit_h1_details: "hi_details wit_h1 0 = wit_details ''bot.example.org'' 301"
  by (simp add: hi_details_def wit_h1_def)

lemma wit_h1_lookup: "hi_lookup wit_h1 k = (if k = ''10.1.2.3'' then Some 0 else None)"
  by (simp add: hi_lookup_def wit_h1_def)

lemma wit_history_update:
  "history_update wit_env new_whitelist False [(1000, 1001, wit_stats)] wit_h1 =
     Inr (hi_set_details 0 wit_blocked wit_h1, [], [0])"
  using wit_update by (simp add: wit_h1_lookup wit_h1_details wit_stats_total wit_addr_string wit_env_def)

lemma update_drops_the_rest_witness:
  "history_update wit_env new_whitelist False [(1000, 1001, wit_unknown), (1000, 1001, wit_stats)] wit_h1 = Inr (wit_h1, [], [])"
  using update_drops_the_rest [of wit_h1 wit_unknown wit_env new_whitelist False "[]" 1000 1001 "[(1000, 1001, wit_stats)]"]
  by (simp add: wit_h1_lookup wit_unknown_string)

lemma set_hostname_update_ignored_witness:
  "\<exists>h' st. history_set_hostname wit_addr ''bot.example.org'' wit_h1 = (h', Some st) \<and>
     history_update wit_env new_whitelist False [(1000, 1001, st)] h' = Inr (h', [], [])"
proof -
  obtain h' st where "history_set_hostname wit_addr ''bot.example.org'' wit_h1 = (h', Some st)"
    by (cases "set_hostname ''bot.example.org'' (hi_details wit_h1 0)")
      (auto simp: history_set_hostname_def wit_addr_def wit_addr_string wit_h1_lookup)
  from set_hostname_update_ignored [OF this] this show ?thesis by blast
qed

definition wit_request :: request where
  "wit_request = \<lparr>rq_url = ''/index.html'', rq_host = ''example.org'', rq_agent = ''curl'', rq_source = ''10.1.2.3'',
     rq_method = ''GET'', rq_seq = 1, rq_timestamp = 5, rq_time = 5 * second, rq_asn = None, rq_is_app = False\<rparr>"

definition wit_expire_clock :: expire_clock where
  "wit_expire_clock = \<lparr>ck_check = 6 * second, ck_all = 6 * second, ck_app = 6 * second, ck_other = 6 * second,
     ck_agents = (\<lambda>_. 6 * second), ck_latest = 6 * second, ck_done = 6 * second\<rparr>"

definition wit_add_clock :: add_clock where
  "wit_add_clock = \<lparr>ac_new = (5 * second, 5 * second, 5 * second), ac_add = 6 * second,
     ac_requests = wit_expire_clock, ac_stats = (6 * second, 6 * second)\<rparr>"

lemma wit_source: "parse_ip (rq_source wit_request) = wit_addr"
  by code_simp

lemma wit_new_ip: "\<exists>ipd. new_ip_data rbt_api (\<lambda>_. Some wit_as) g new_whitelist t t' t'' ip cfg = Inr ipd"
  by (auto simp: new_ip_data_def new_details_def is_whitelisted_def new_whitelist_def Let_def)

lemma wit_history_add:
  "\<exists>h' db' res. history_add wit_env new_whitelist wit_add_clock wit_request wit_h0 RBT.empty = Inr (h', db', res)"
proof -
  obtain h1 a b where e: "ensure_ip wit_env new_whitelist (ac_new wit_add_clock) wit_addr wit_h0 = Inr (h1, a, b)"
  proof -
    obtain ipd where "new_ip_data rbt_api (\<lambda>_. Some wit_as) (\<lambda>_. Some ''Wien'') new_whitelist (fst (ac_new wit_add_clock))
        (fst (snd (ac_new wit_add_clock))) (snd (snd (ac_new wit_add_clock))) wit_addr wit_cfg = Inr ipd"
      using wit_new_ip by blast
    with that show thesis by (auto simp: ensure_ip_def hi_lookup_def wit_h0_def wit_env_def Let_def)
  qed
  show ?thesis
    by (auto simp: history_add_def wit_source Let_def e wit_addr_def [symmetric] split: prod.splits sum.splits)
qed

lemma history_add_counts_witness:
  "\<exists>h' db' res d. history_add wit_env new_whitelist wit_add_clock wit_request wit_h0 RBT.empty = Inr (h', db', res) \<and>
     sw_rep rbt_api (hi_stats h') {#(d, 5 * second)#}"
proof -
  obtain h' db' res where run: "history_add wit_env new_whitelist wit_add_clock wit_request wit_h0 RBT.empty = Inr (h', db', res)"
    using wit_history_add by blast
  have "\<exists>d. sw_rep (en_slices wit_env) (hi_stats h') (add_mset (d, rq_time wit_request) {#})"
  proof (rule history_add_counts [OF _ _ run])
    show "treemap (en_slices wit_env)" by (simp add: wit_env_def rbt.treemap_axioms)
    show "sw_rep (en_slices wit_env) (hi_stats wit_h0) {#}"
      by (simp add: wit_env_def wit_h0_def new_stats_windows_rep rbt.treemap_axioms)
    show "parse_ip (rq_source wit_request) \<noteq> []" by (simp add: wit_source wit_addr_def)
    show "\<not> isl (en_marshal wit_env st)" for st by (simp add: wit_env_def)
  qed
  with run show ?thesis by (auto simp: wit_env_def wit_request_def)
qed

end
