(* ===== verification/Block.thy ===== *)
theory Block
  imports Codec Net Whitelist
begin

text \<open>
  \<^verbatim>\<open>block.go\<close>: the block list. Blocked addresses, autonomous systems and networks are entries of the
  key/value store under the prefixes \<open>bl:ip:\<close>, \<open>bl:asn\<close> and \<open>bl:cidr:\<close>, written with a time to live. The
  store is the interface \<open>KVStore\<close> of the theory \<open>Store\<close>; JSON is a parameter, one codec per message.
\<close>

section \<open>Keys\<close>

definition ip_namespace :: "byte list \<Rightarrow> string" where
  "ip_namespace ip = ''bl'' @ '':ip:'' @ str_of_bytes ip"

definition asn_namespace :: "int \<Rightarrow> string" where
  "asn_namespace asn = (if asn > 0 then ''bl'' @ '':'' @ ''asn'' @ '':'' @ show_int asn else ''bl'' @ '':'' @ ''asn'')"

definition cidr_namespace :: "string \<Rightarrow> string" where
  "cidr_namespace cidr = ''bl'' @ '':'' @ ''cidr'' @ '':'' @ cidr"

section \<open>State\<close>

text \<open>The caches map to \<open>true\<close> only, so each is the set of its keys; no operation reads them.\<close>

record block =
  bk_network_cache :: "string set"
  bk_asn_cache :: "int set"
  bk_ttl :: duration

text \<open>
  JSON: the codecs of the three messages, and the decodings into other types that the methods use.
  Decoding into a struct that already holds values keeps the fields the text does not mention, so
  \<open>bj_details\<close> takes the struct; it gives the struct and the error.
\<close>

record block_json =
  bj_ip :: "ip_block_message json_api"
  bj_network :: "network_block_message json_api"
  bj_asn :: "block_message json_api"
  bj_details :: "string \<Rightarrow> ip_details \<Rightarrow> ip_details \<times> store_error option"
  bj_ipnet :: "string \<Rightarrow> store_error + ipnet"
  bj_asn_struct :: "string \<Rightarrow> store_error + asn"

datatype block_error = NilArgument string | StoreFailed store_error

section \<open>Blocking\<close>

text \<open>
  The part the three methods share: look the key up, leave an entry that is there alone, otherwise write
  the marshalled message with the time to live. \<open>now\<close> and \<open>now'\<close> are the times of the two store calls.
\<close>

definition write_once :: "'db kvstore_api \<Rightarrow> duration \<Rightarrow> time \<Rightarrow> time \<Rightarrow> string \<Rightarrow> store_error + string
    \<Rightarrow> 'db \<Rightarrow> block_error option \<times> 'db" where
  "write_once K ttl now now' key bytes db =
     (let write = (case bytes of
                     Inl err \<Rightarrow> (Some (StoreFailed err), db)
                   | Inr s \<Rightarrow> (case kv_setex K db now' key s ttl of
                                 Inl err \<Rightarrow> (Some (StoreFailed err), db)
                               | Inr db' \<Rightarrow> (None, db')))
      in case kv_get K db now key of
           Inl NotFound \<Rightarrow> write
         | Inl err \<Rightarrow> (Some (StoreFailed err), db)
         | Inr data \<Rightarrow> if data \<noteq> [] then (None, db) else write)"

definition block_ip :: "'db kvstore_api \<Rightarrow> block_json \<Rightarrow> duration \<Rightarrow> time \<Rightarrow> time \<Rightarrow> ip_block_message \<Rightarrow> 'db
    \<Rightarrow> block_error option \<times> 'db" where
  "block_ip K J ttl now now' msg db =
     (if ibm_ip msg = [] then (Some (NilArgument ''IP is nil''), db)
      else write_once K ttl now now' (ip_namespace (ibm_ip msg)) (js_marshal (bj_ip J) msg) db)"

definition get_asn :: "'db kvstore_api \<Rightarrow> block_json \<Rightarrow> time \<Rightarrow> 'db \<Rightarrow> asn \<Rightarrow> store_error + block_message" where
  "get_asn K J now db asn =
     (case kv_get K db now (asn_namespace (asn_number asn)) of
        Inl err \<Rightarrow> Inl err | Inr raw \<Rightarrow> js_unmarshal (bj_asn J) raw)"

text \<open>\<open>GetNetwork\<close> decodes a network's message as a \<open>BlockMessage\<close>, the struct it embeds.\<close>

definition get_network :: "'db kvstore_api \<Rightarrow> block_json \<Rightarrow> time \<Rightarrow> 'db \<Rightarrow> ipnet \<Rightarrow> store_error + block_message" where
  "get_network K J now db network =
     (case kv_get K db now (cidr_namespace (ipnet_string network)) of
        Inl err \<Rightarrow> Inl err | Inr raw \<Rightarrow> js_unmarshal (bj_asn J) raw)"

text \<open>The clock readings of the two lookups are \<open>now\<close> and \<open>now'\<close>; nil pointers panic.\<close>

definition is_blocked_by_asn :: "'db kvstore_api \<Rightarrow> block_json \<Rightarrow> time \<Rightarrow> time \<Rightarrow> 'db \<Rightarrow> asn option
    \<Rightarrow> panic + bool \<times> reason" where
  "is_blocked_by_asn K J now now' db asn =
     (case asn of
        None \<Rightarrow> Inl NilDereference
      | Some a \<Rightarrow>
          (case get_asn K J now db a of
             Inr msg \<Rightarrow> Inr (True, bm_reason msg)
           | Inl _ \<Rightarrow>
               (case asn_network a of
                  None \<Rightarrow> Inl NilDereference
                | Some n \<Rightarrow>
                    (case get_network K J now' db n of
                       Inr msg \<Rightarrow> Inr (True, bm_reason msg)
                     | Inl _ \<Rightarrow> Inr (False, Reason [])))))"

text \<open>The readings of \<open>BlockNetwork\<close> and \<open>BlockASN\<close>: two lookups, then \<open>Get\<close> and \<open>SetEx\<close>.\<close>

record block_clock =
  bc_asn :: time
  bc_network :: time
  bc_get :: time
  bc_set :: time

definition cache_blocked_network :: "ipnet \<Rightarrow> block \<Rightarrow> block" where
  [simp]: "cache_blocked_network network b = b\<lparr>bk_network_cache := insert (ipnet_string network) (bk_network_cache b)\<rparr>"

definition cache_blocked_asn :: "asn \<Rightarrow> block \<Rightarrow> block" where
  [simp]: "cache_blocked_asn asn b = b\<lparr>bk_asn_cache := insert (asn_number asn) (bk_asn_cache b)\<rparr>"

definition block_network :: "'db kvstore_api \<Rightarrow> block_json \<Rightarrow> block_clock \<Rightarrow> network_block_message \<Rightarrow> block \<Rightarrow> 'db
    \<Rightarrow> panic + block_error option \<times> block \<times> 'db" where
  "block_network K J ck msg b db =
     (case nbm_network msg of
        None \<Rightarrow> Inr (Some (NilArgument ''network is nil''), b, db)
      | Some network \<Rightarrow>
          (case is_blocked_by_asn K J (bc_asn ck) (bc_network ck) db (st_asn msg) of
             Inl p \<Rightarrow> Inl p
           | Inr (blocked, _) \<Rightarrow>
               if blocked then Inr (None, b, db)
               else
                 let b' = cache_blocked_network network b;
                     (err, db') = write_once K (bk_ttl b) (bc_get ck) (bc_set ck)
                        (cidr_namespace (ipnet_string network)) (js_marshal (bj_network J) msg) db
                 in Inr (err, b', db')))"

definition block_asn :: "'db kvstore_api \<Rightarrow> block_json \<Rightarrow> block_clock \<Rightarrow> block_message \<Rightarrow> block \<Rightarrow> 'db
    \<Rightarrow> panic + block_error option \<times> block \<times> 'db" where
  "block_asn K J ck msg b db =
     (case st_asn msg of
        None \<Rightarrow> Inr (Some (NilArgument ''asn is nil''), b, db)
      | Some asn \<Rightarrow>
          (case is_blocked_by_asn K J (bc_asn ck) (bc_network ck) db (Some asn) of
             Inl p \<Rightarrow> Inl p
           | Inr (blocked, _) \<Rightarrow>
               if blocked then Inr (None, b, db)
               else
                 let b' = cache_blocked_asn asn b;
                     (err, db') = write_once K (bk_ttl b) (bc_get ck) (bc_set ck)
                        (asn_namespace (asn_number asn)) (js_marshal (bj_asn J) msg) db
                 in Inr (err, b', db')))"

text \<open>\<open>asnToBytes\<close>, which nothing calls: the 64 bits of a number in eight bytes, the lowest first.\<close>

primrec le_bytes :: "nat \<Rightarrow> int \<Rightarrow> int list" where
  "le_bytes 0 x = []"
| "le_bytes (Suc n) x = x mod 256 # le_bytes n (x div 256)"

definition asn_to_bytes :: "int \<Rightarrow> int list" where
  "asn_to_bytes asn = le_bytes 8 asn"

lemma le_bytes_value: "foldr (\<lambda>b v. b + 256 * v) (le_bytes n x) 0 = x mod 256 ^ n"
  by (induction n arbitrary: x) (simp_all add: zmod_zmult2_eq)

lemma asn_to_bytes_value: "foldr (\<lambda>b v. b + 256 * v) (asn_to_bytes asn) 0 = asn mod 2 ^ 64"
  using le_bytes_value [of 8 asn] by (simp add: asn_to_bytes_def)

section \<open>Removing\<close>

definition remove_ip :: "'db kvstore_api \<Rightarrow> time \<Rightarrow> ip \<Rightarrow> 'db \<Rightarrow> store_error + 'db" where
  "remove_ip K now ip db = kv_remove K db now (ip_namespace ip)"

definition remove_network :: "'db kvstore_api \<Rightarrow> time \<Rightarrow> ipnet \<Rightarrow> 'db \<Rightarrow> store_error + 'db" where
  "remove_network K now network db = kv_remove K db now (cidr_namespace (ipnet_string network))"

definition remove_asn :: "'db kvstore_api \<Rightarrow> time \<Rightarrow> asn option \<Rightarrow> 'db \<Rightarrow> panic + (store_error + 'db)" where
  "remove_asn K now asn db =
     (case asn of None \<Rightarrow> Inl NilDereference
      | Some a \<Rightarrow> Inr (kv_remove K db now (asn_namespace (asn_number a))))"

text \<open>\<open>Clear\<close> drops the error of \<open>Remove\<close>; the count that follows is only logged.\<close>

definition clear :: "'db kvstore_api \<Rightarrow> time \<Rightarrow> 'db \<Rightarrow> 'db" where
  "clear K now db = (case kv_remove K db now ''bl'' of Inl _ \<Rightarrow> db | Inr db' \<Rightarrow> db')"

section \<open>Reading\<close>

definition details0 :: ip_details where
  "details0 = \<lparr>id_ip = [], id_hostname = [], id_asn = None, id_geoip = None, id_total = 0, id_app = 0,
     id_other = 0, id_ratio = Fin 0, id_is_blocked = False, id_block_reason = Reason [],
     id_whitelisted = False, id_whitelist_reason = [], id_created_at = zero_time,
     id_updated_at = zero_time, id_last_block_at = zero_time, id_force_block = False\<rparr>"

definition get_ip :: "'db kvstore_api \<Rightarrow> block_json \<Rightarrow> time \<Rightarrow> 'db \<Rightarrow> ip \<Rightarrow> store_error + ip_details" where
  "get_ip K J now db ip =
     (case kv_get K db now (ip_namespace ip) of
        Inl err \<Rightarrow> Inl err
      | Inr data \<Rightarrow> (case bj_details J data details0 of (ipd, None) \<Rightarrow> Inr ipd | (ipd, Some err) \<Rightarrow> Inl err))"

text \<open>\<open>IsBlocked\<close>: three lookups, at the times \<open>t1\<close>, \<open>t2\<close> and \<open>t3\<close>.\<close>

definition is_blocked :: "'db kvstore_api \<Rightarrow> block_json \<Rightarrow> time \<Rightarrow> time \<Rightarrow> time \<Rightarrow> 'db \<Rightarrow> ip \<Rightarrow> asn option
    \<Rightarrow> panic + bool" where
  "is_blocked K J t1 t2 t3 db ip asn =
     (case get_ip K J t1 db ip of
        Inr _ \<Rightarrow> Inr True
      | Inl _ \<Rightarrow> (case is_blocked_by_asn K J t2 t3 db asn of Inl p \<Rightarrow> Inl p | Inr (blocked, _) \<Rightarrow> Inr blocked))"

text \<open>The callbacks that append what they can decode, and the loops that give up at the first error.\<close>

fun decode_each :: "(string \<Rightarrow> store_error + 'a) \<Rightarrow> string list \<Rightarrow> 'a list \<Rightarrow> 'a list" where
  "decode_each dec [] res = res"
| "decode_each dec (v # vs) res =
     (case dec v of Inl _ \<Rightarrow> decode_each dec vs res | Inr x \<Rightarrow> decode_each dec vs (res @ [x]))"

fun decode_all :: "(string \<Rightarrow> store_error + 'a) \<Rightarrow> string list \<Rightarrow> store_error + 'a list" where
  "decode_all dec [] = Inr []"
| "decode_all dec (v # vs) =
     (case dec v of Inl err \<Rightarrow> Inl err
      | Inr x \<Rightarrow> (case decode_all dec vs of Inl err \<Rightarrow> Inl err | Inr xs \<Rightarrow> Inr (x # xs)))"

definition blocked_ips :: "'db kvstore_api \<Rightarrow> block_json \<Rightarrow> time \<Rightarrow> 'db \<Rightarrow> ip_block_message list" where
  "blocked_ips K J now db = decode_each (js_unmarshal (bj_ip J)) (fst (kv_each K db now (ip_namespace []))) []"

definition blocked_networks :: "'db kvstore_api \<Rightarrow> block_json \<Rightarrow> time \<Rightarrow> 'db \<Rightarrow> network_block_message list" where
  "blocked_networks K J now db =
     decode_each (js_unmarshal (bj_network J)) (fst (kv_each K db now (cidr_namespace []))) []"

definition blocked_asns :: "'db kvstore_api \<Rightarrow> block_json \<Rightarrow> time \<Rightarrow> 'db \<Rightarrow> block_message list" where
  "blocked_asns K J now db = decode_each (js_unmarshal (bj_asn J)) (fst (kv_each K db now (asn_namespace (- 1)))) []"

definition all_ips :: "'db kvstore_api \<Rightarrow> block_json \<Rightarrow> time \<Rightarrow> 'db \<Rightarrow> store_error + ip_block_message list" where
  "all_ips K J now db =
     (case kv_all K db now (ip_namespace []) of Inl err \<Rightarrow> Inl err | Inr vs \<Rightarrow> decode_all (js_unmarshal (bj_ip J)) vs)"

definition all_networks :: "'db kvstore_api \<Rightarrow> block_json \<Rightarrow> time \<Rightarrow> 'db \<Rightarrow> store_error + ipnet list" where
  "all_networks K J now db =
     (case kv_all K db now (cidr_namespace []) of Inl err \<Rightarrow> Inl err | Inr vs \<Rightarrow> decode_all (bj_ipnet J) vs)"

definition all_asns :: "'db kvstore_api \<Rightarrow> block_json \<Rightarrow> time \<Rightarrow> 'db \<Rightarrow> store_error + asn list" where
  "all_asns K J now db =
     (case kv_all K db now (asn_namespace (- 1)) of Inl err \<Rightarrow> Inl err | Inr vs \<Rightarrow> decode_all (bj_asn_struct J) vs)"

definition count_ips :: "'db kvstore_api \<Rightarrow> time \<Rightarrow> 'db \<Rightarrow> int" where
  "count_ips K now db = fst (kv_count K db now (ip_namespace []))"

definition count_networks :: "'db kvstore_api \<Rightarrow> time \<Rightarrow> 'db \<Rightarrow> int" where
  "count_networks K now db = fst (kv_count K db now (cidr_namespace []))"

definition count_asns :: "'db kvstore_api \<Rightarrow> time \<Rightarrow> 'db \<Rightarrow> int" where
  "count_asns K now db = fst (kv_count K db now (asn_namespace (- 1)))"

section \<open>The cache and the recheck\<close>

definition build_cache :: "'db kvstore_api \<Rightarrow> block_json \<Rightarrow> time \<Rightarrow> time \<Rightarrow> 'db \<Rightarrow> block \<Rightarrow> block" where
  "build_cache K J now now' db b =
     (case all_networks K J now db of Inl _ \<Rightarrow> b | Inr networks \<Rightarrow>
     (case all_asns K J now' db of Inl _ \<Rightarrow> b | Inr asns \<Rightarrow>
        b\<lparr>bk_network_cache := set (map ipnet_string networks), bk_asn_cache := set (map asn_number asns)\<rparr>))"

text \<open>\<open>NewBlock\<close>: empty caches, filled from the store.\<close>

definition new_block :: "'db kvstore_api \<Rightarrow> block_json \<Rightarrow> time \<Rightarrow> time \<Rightarrow> duration \<Rightarrow> 'db \<Rightarrow> block" where
  "new_block K J now now' ttl db = build_cache K J now now' db \<lparr>bk_network_cache = {}, bk_asn_cache = {}, bk_ttl = ttl\<rparr>"

text \<open>
  \<open>cleanup\<close> on a message of the whitelist: every entry is decoded into the one variable \<open>ipd\<close>, and an
  address that is whitelisted now is removed, at the time \<open>now\<close>; the error of the removal is dropped.
  The callback runs over the snapshot of the View transaction, so removals do not change what it sees.
\<close>

fun recheck_loop :: "'db kvstore_api \<Rightarrow> block_json \<Rightarrow> whitelist \<Rightarrow> time \<Rightarrow> string list \<Rightarrow> ip_details \<Rightarrow> 'db
    \<Rightarrow> panic + 'db" where
  "recheck_loop K J wl now [] ipd db = Inr db"
| "recheck_loop K J wl now (v # vs) ipd db =
     (let ipd1 = fst (bj_details J v ipd)
      in case is_whitelisted wl ipd1 of
           Inl p \<Rightarrow> Inl p
         | Inr (whitelisted, _) \<Rightarrow>
             if whitelisted then
               recheck_loop K J wl now vs (ipd1\<lparr>id_whitelisted := True\<rparr>)
                 (case remove_ip K now (id_ip ipd1) db of Inl _ \<Rightarrow> db | Inr db' \<Rightarrow> db')
             else recheck_loop K J wl now vs ipd1 db)"

definition recheck :: "'db kvstore_api \<Rightarrow> block_json \<Rightarrow> whitelist \<Rightarrow> time \<Rightarrow> time \<Rightarrow> 'db \<Rightarrow> panic + 'db" where
  "recheck K J wl now now' db =
     recheck_loop K J wl now' (fst (kv_each K db now (ip_namespace []))) details0 db"

section \<open>The keys do not interfere\<close>

lemma prefix_take: "prefix xs ys \<longleftrightarrow> take (length xs) ys = xs"
  by (metis append_eq_conv_conj prefix_def take_is_prefix)

lemma prefix_str_of_bytes [simp]: "prefix (str_of_bytes a) (str_of_bytes b) \<longleftrightarrow> prefix a b"
proof -
  have "take (length a) (str_of_bytes b) = str_of_bytes (take (length a) b)"
    by (simp add: str_of_bytes_def take_map)
  then show ?thesis by (simp add: prefix_take str_of_bytes_inj)
qed

lemma prefix_ip_namespace [simp]: "prefix (ip_namespace a) (ip_namespace b) \<longleftrightarrow> prefix a b"
  by (simp add: ip_namespace_def)

lemma prefix_same_length: "length a = length b \<Longrightarrow> prefix a b \<longleftrightarrow> a = b"
  by (auto simp: prefix_take)

lemma prefix_cidr_namespace [simp]: "prefix (cidr_namespace a) (cidr_namespace b) \<longleftrightarrow> prefix a b"
  by (simp add: cidr_namespace_def)

lemma prefix_asn_namespace:
  "0 < m \<Longrightarrow> 0 < n \<Longrightarrow> prefix (asn_namespace m) (asn_namespace n) \<longleftrightarrow> prefix (show_int m) (show_int n)"
  by (simp add: asn_namespace_def)

lemma namespaces_apart [simp]:
  "\<not> prefix (ip_namespace a) (asn_namespace n)" "\<not> prefix (ip_namespace a) (cidr_namespace c)"
  "\<not> prefix (asn_namespace n) (ip_namespace a)" "\<not> prefix (asn_namespace n) (cidr_namespace c)"
  "\<not> prefix (cidr_namespace c) (ip_namespace a)" "\<not> prefix (cidr_namespace c) (asn_namespace n)"
  by (simp_all add: ip_namespace_def asn_namespace_def cidr_namespace_def)

lemma namespaces_neq [simp]:
  "ip_namespace a \<noteq> asn_namespace n" "ip_namespace a \<noteq> cidr_namespace c" "asn_namespace n \<noteq> cidr_namespace c"
  "asn_namespace n \<noteq> ip_namespace a" "cidr_namespace c \<noteq> ip_namespace a" "cidr_namespace c \<noteq> asn_namespace n"
  by (simp_all add: ip_namespace_def asn_namespace_def cidr_namespace_def)

lemma ip_namespace_inj [simp]: "ip_namespace a = ip_namespace b \<longleftrightarrow> a = b"
  by (simp add: ip_namespace_def str_of_bytes_inj)

lemma bl_prefix [simp]:
  "prefix ''bl'' (ip_namespace a)" "prefix ''bl'' (asn_namespace n)" "prefix ''bl'' (cidr_namespace c)"
  by (simp_all add: ip_namespace_def asn_namespace_def cidr_namespace_def)

section \<open>The store under the block list\<close>

context kvstore
begin

lemma write_once_fresh:
  assumes "write_once K ttl now now' key bytes db = (None, db')" and "content db now key = None"
  obtains s where "bytes = Inr s" and "kv_setex K db now' key s ttl = Inr db'"
  using assms get_Inr [of db now key]
  by (auto simp: write_once_def Let_def split: sum.splits store_error.splits if_splits)

lemma write_once_present:
  assumes "content db now key = Some v" and "v \<noteq> []"
  shows "snd (write_once K ttl now now' key bytes db) = db"
  using assms get_Inr [of db now key] get_NotFound [of db now key]
  by (auto simp: write_once_def Let_def split: sum.splits store_error.splits if_splits)

lemma write_once_other:
  assumes "write_once K ttl now now' key bytes db = (err, db')" and "now' \<le> t" and "j \<noteq> key"
  shows "content db' t j = content db t j"
  using assms setex_other
  by (auto simp: write_once_def Let_def split: sum.splits store_error.splits if_splits)

lemma clear_content:
  assumes "kv_remove K db now ''bl'' = Inr db'" and "now \<le> t"
  shows "content (clear K now db) t k = (if prefix ''bl'' k then None else content db t k)"
  using assms remove_content by (simp add: clear_def)

end

section \<open>What JSON has to carry\<close>

text \<open>
  The contract of the codecs: messages survive the round trip; an address's message decoded as
  \<open>IPDetails\<close> has its address, its hostname and its ASN, whatever was in the struct; a network's message decoded as the message it embeds has its reason.
\<close>

locale block_codec =
  fixes J :: block_json and ip_ok :: "ip_block_message \<Rightarrow> bool"
    and asn_ok :: "block_message \<Rightarrow> bool" and network_ok :: "network_block_message \<Rightarrow> bool"
  assumes ip_codec: "json_codec (bj_ip J) ip_ok"
    and asn_codec: "json_codec (bj_asn J) asn_ok"
    and network_codec: "json_codec (bj_network J) network_ok"
    and details: "ip_ok m \<Longrightarrow> js_marshal (bj_ip J) m = Inr s \<Longrightarrow>
      snd (bj_details J s d) = None \<and> id_ip (fst (bj_details J s d)) = ibm_ip m \<and>
      id_hostname (fst (bj_details J s d)) = ibm_hostname m \<and> id_asn (fst (bj_details J s d)) = st_asn m"
    and embedded: "network_ok n \<Longrightarrow> js_marshal (bj_network J) n = Inr s \<Longrightarrow>
      \<exists>bm. js_unmarshal (bj_asn J) s = Inr bm \<and> bm_reason bm = bm_reason n"

text \<open>An instance: every message by its number, the kinds apart by their first character.\<close>

instance f64 :: countable
  by countable_datatype

instance reason :: countable
  by countable_datatype

instance ipnet_ext :: (countable) countable
  by (rule countable_classI [of "\<lambda>x. to_nat (net_ip x, net_mask x, ipnet.more x)"]) (auto intro: ipnet.equality)

instance asn_ext :: (countable) countable
  by (rule countable_classI [of "\<lambda>x. to_nat (asn_network x, asn_cidr x, asn_number x, asn_org x, asn.more x)"])
     (auto intro: asn.equality)

instance stats_ext :: (countable) countable
  by (rule countable_classI [of "\<lambda>x. to_nat (st_total x, st_app x, st_other x, st_ratio x, st_ips x, st_asn x, stats.more x)"])
     (auto intro: stats.equality)

definition stats0 :: stats where
  "stats0 = \<lparr>st_total = 0, st_app = 0, st_other = 0, st_ratio = Fin 0, st_ips = 0, st_asn = None\<rparr>"

instance block_message_ext :: (countable) countable
proof (rule countable_classI [of "\<lambda>x. let r = stats.extend stats0 x
    in to_nat (bm_reason r, bm_city r, bm_blocked_at r, block_message.more r)"])
  fix x y :: "'a block_message_ext"
  assume "(let r = stats.extend stats0 x in to_nat (bm_reason r, bm_city r, bm_blocked_at r, block_message.more r)) =
    (let r = stats.extend stats0 y in to_nat (bm_reason r, bm_city r, bm_blocked_at r, block_message.more r))"
  then have "stats.extend stats0 x = stats.extend stats0 y"
    by (intro block_message.equality) (simp_all add: Let_def stats.extend_def)
  then show "x = y" by (simp add: stats.extend_def)
qed

definition block_message0 :: block_message where
  "block_message0 = stats.extend stats0 (block_message.fields (Reason []) None 0)"

instance ip_block_message_ext :: (countable) countable
proof (rule countable_classI [of "\<lambda>x. let r = block_message.extend block_message0 x
    in to_nat (ibm_ip r, ibm_hostname r, ip_block_message.more r)"])
  fix x y :: "'a ip_block_message_ext"
  assume "(let r = block_message.extend block_message0 x in to_nat (ibm_ip r, ibm_hostname r, ip_block_message.more r)) =
    (let r = block_message.extend block_message0 y in to_nat (ibm_ip r, ibm_hostname r, ip_block_message.more r))"
  then have "block_message.extend block_message0 x = block_message.extend block_message0 y"
    by (intro ip_block_message.equality) (simp_all add: Let_def block_message.extend_def)
  then show "x = y" by (simp add: block_message.extend_def)
qed

instance network_block_message_ext :: (countable) countable
proof (rule countable_classI [of "\<lambda>x. let r = block_message.extend block_message0 x
    in to_nat (nbm_network r, network_block_message.more r)"])
  fix x y :: "'a network_block_message_ext"
  assume "(let r = block_message.extend block_message0 x in to_nat (nbm_network r, network_block_message.more r)) =
    (let r = block_message.extend block_message0 y in to_nat (nbm_network r, network_block_message.more r))"
  then have "block_message.extend block_message0 x = block_message.extend block_message0 y"
    by (intro network_block_message.equality) (simp_all add: Let_def block_message.extend_def)
  then show "x = y" by (simp add: block_message.extend_def)
qed

text \<open>The messages of networks and of autonomous systems share their numbers, the network being an addition.\<close>

definition num_decode :: "string \<Rightarrow> 'a::countable" where
  "num_decode s = from_nat (length s - 1)"

definition num_block_json :: block_json where
  "num_block_json =
     \<lparr>bj_ip = num_json,
      bj_network =
        \<lparr>js_marshal = (\<lambda>n. Inr (unary (to_nat (block_message.truncate n, Some (nbm_network n))))),
         js_unmarshal = (\<lambda>s. case num_decode s :: block_message \<times> ipnet option option of
            (m, n) \<Rightarrow> Inr (block_message.extend m (network_block_message.fields (case n of None \<Rightarrow> None | Some w \<Rightarrow> w))))\<rparr>,
      bj_asn =
        \<lparr>js_marshal = (\<lambda>m. Inr (unary (to_nat (m, None :: ipnet option option)))),
         js_unmarshal = (\<lambda>s. Inr (fst (num_decode s :: block_message \<times> ipnet option option)))\<rparr>,
      bj_details = (\<lambda>s d. let m = (num_decode s :: ip_block_message)
        in (d\<lparr>id_ip := ibm_ip m, id_hostname := ibm_hostname m, id_asn := st_asn m\<rparr>, None)),
      bj_ipnet = (\<lambda>s. Inr (num_decode s)), bj_asn_struct = (\<lambda>s. Inr (num_decode s))\<rparr>"

lemma unary_not_Nil [simp]: "unary n \<noteq> []"
  by (cases n) auto

lemma num_decode_unary [simp]: "num_decode (unary (to_nat x)) = x"
  by (simp add: num_decode_def)

lemma num_json_marshal: "js_marshal num_json v = Inr (unary (to_nat v))"
  by (simp add: num_json_def)

interpretation num_block: block_codec num_block_json "\<lambda>_. True" "\<lambda>_. True" "\<lambda>_. True"
proof (rule block_codec.intro)
  show "json_codec (bj_ip num_block_json) (\<lambda>_. True)"
    by (simp add: num_block_json_def num.json_codec_axioms)
  show "json_codec (bj_asn num_block_json) (\<lambda>_. True)"
    by unfold_locales (auto simp: num_block_json_def)
  show "json_codec (bj_network num_block_json) (\<lambda>_. True)"
    by unfold_locales
      (auto simp: num_block_json_def block_message.defs network_block_message.defs)
qed (auto simp: num_block_json_def num_json_marshal block_message.defs Let_def)

section \<open>Properties\<close>

lemma get_ip_marshalled:
  assumes "block_codec J ip_ok asn_ok network_ok" and "ip_ok msg" and "js_marshal (bj_ip J) msg = Inr s"
    and "kv_get K db t (ip_namespace ip) = Inr s"
  shows "\<not> isl (get_ip K J t db ip)"
  using assms block_codec.details [OF assms(1-3), of details0]
  by (auto simp: get_ip_def split: prod.splits option.splits)

lemma block_ip_fresh:
  assumes K: "kvstore K content" and run: "block_ip K J ttl now now' msg db = (None, db')"
    and fresh: "content db now (ip_namespace (ibm_ip msg)) = None"
  obtains s where "js_marshal (bj_ip J) msg = Inr s" and "ibm_ip msg \<noteq> []"
    and "kv_setex K db now' (ip_namespace (ibm_ip msg)) s ttl = Inr db'"
proof -
  have ip: "ibm_ip msg \<noteq> []" using run by (auto simp: block_ip_def)
  with run have w: "write_once K ttl now now' (ip_namespace (ibm_ip msg)) (js_marshal (bj_ip J) msg) db = (None, db')"
    by (simp add: block_ip_def)
  from kvstore.write_once_fresh [OF K w fresh] ip that show ?thesis by blast
qed

lemma block_ip_present:
  assumes "kvstore K content" and "content db now (ip_namespace (ibm_ip msg)) = Some v" and "v \<noteq> []"
  shows "snd (block_ip K J ttl now now' msg db) = db"
  using kvstore.write_once_present [OF assms] by (simp add: block_ip_def)

lemma is_blocked_ip: "\<not> isl (get_ip K J t db ip) \<Longrightarrow> is_blocked K J t t2 t3 db ip asn = Inr True"
  by (cases "get_ip K J t db ip") (auto simp: is_blocked_def)

lemma get_ip_none: "kvstore K content \<Longrightarrow> content db t (ip_namespace ip) = None \<Longrightarrow> isl (get_ip K J t db ip)"
  using kvstore.get_Inr [of K content db t "ip_namespace ip"] by (auto simp: get_ip_def split: sum.splits)

lemma is_blocked_not_ip:
  "isl (get_ip K J t db ip) \<Longrightarrow> is_blocked K J t t2 t3 db ip asn =
     (case is_blocked_by_asn K J t2 t3 db asn of Inl p \<Rightarrow> Inl p | Inr (blocked, _) \<Rightarrow> Inr blocked)"
  by (cases "get_ip K J t db ip") (auto simp: is_blocked_def)

lemma block_ip_stored:
  assumes "kvstore K content" and "block_codec J ip_ok asn_ok network_ok" and "ip_ok msg"
    and "block_ip K J ttl now now' msg db = (None, db')"
    and "content db now (ip_namespace (ibm_ip msg)) = None"
    and "now' \<le> t" and "t + second \<le> now' + ttl" and "answers K db' t (ip_namespace (ibm_ip msg))"
  shows "\<not> isl (get_ip K J t db' (ibm_ip msg))"
proof -
  obtain s where s: "js_marshal (bj_ip J) msg = Inr s"
    and set: "kv_setex K db now' (ip_namespace (ibm_ip msg)) s ttl = Inr db'"
    using block_ip_fresh [OF assms(1,4,5)] .
  have "kv_get K db' t (ip_namespace (ibm_ip msg)) = Inr s"
    using kvstore.get_answers [OF assms(1,8)] kvstore.setex_live [OF assms(1) set assms(6,7)] by simp
  then show ?thesis using assms(2,3) s by (intro get_ip_marshalled)
qed

text \<open>
  Blocking an address that is not blocked yet works: from the moment it is written until one second
  before its time to live ends, the address is blocked, whatever its autonomous system.
\<close>

theorem block_ip_blocks:
  assumes "kvstore K content" and "block_codec J ip_ok asn_ok network_ok" and "ip_ok msg"
    and "block_ip K J ttl now now' msg db = (None, db')"
    and "content db now (ip_namespace (ibm_ip msg)) = None"
    and "now' \<le> t" and "t + second \<le> now' + ttl" and "answers K db' t (ip_namespace (ibm_ip msg))"
  shows "is_blocked K J t t2 t3 db' (ibm_ip msg) asn = Inr True"
  by (rule is_blocked_ip [OF block_ip_stored [OF assms]])

text \<open>
  The block ends with its time to live: from then on the address is blocked only if its autonomous
  system or its network is.
\<close>

theorem block_ip_ends:
  assumes "kvstore K content" and "block_ip K J ttl now now' msg db = (None, db')"
    and "content db now (ip_namespace (ibm_ip msg)) = None"
    and "now' \<le> t" and "now' + ttl \<le> t"
  shows "is_blocked K J t t2 t3 db' (ibm_ip msg) asn =
     (case is_blocked_by_asn K J t2 t3 db' asn of Inl p \<Rightarrow> Inl p | Inr (blocked, _) \<Rightarrow> Inr blocked)"
proof -
  obtain s where set: "kv_setex K db now' (ip_namespace (ibm_ip msg)) s ttl = Inr db'"
    using block_ip_fresh [OF assms(1-3)] .
  show ?thesis
    using kvstore.setex_dead [OF assms(1) set assms(4,5)] assms(1)
    by (intro is_blocked_not_ip get_ip_none)
qed

text \<open>
  Blocking an address that is already blocked changes nothing: neither the message nor the end of the
  block.
\<close>

theorem block_ip_idempotent:
  assumes "kvstore K content" and "block_codec J ip_ok asn_ok network_ok" and "ip_ok msg"
    and "block_ip K J ttl now now' msg db = (None, db')"
    and "content db now (ip_namespace (ibm_ip msg)) = None"
    and "now' \<le> t" and "t + second \<le> now' + ttl"
    and "ibm_ip msg' = ibm_ip msg"
  shows "snd (block_ip K J ttl' t t' msg' db') = db'"
proof -
  obtain s where s: "js_marshal (bj_ip J) msg = Inr s"
    and set: "kv_setex K db now' (ip_namespace (ibm_ip msg)) s ttl = Inr db'"
    using block_ip_fresh [OF assms(1,4,5)] .
  have "s \<noteq> []"
    using json_codec.marshal_not_Nil [OF block_codec.ip_codec [OF assms(2)] s] .
  then show ?thesis
    using kvstore.setex_live [OF assms(1) set assms(6,7)]
    by (intro block_ip_present [OF assms(1), where v = s]) (simp_all add: assms(8))
qed

text \<open>
  Removing an address unblocks that address and no other of the same length, and no autonomous system
  or network.
\<close>

theorem remove_ip_exact:
  assumes "kvstore K content" and "remove_ip K now ip db = Inr db'" and "now \<le> t"
    and "length b = length ip"
  shows "content db' t (ip_namespace b) = (if b = ip then None else content db t (ip_namespace b)) \<and>
    content db' t (asn_namespace n) = content db t (asn_namespace n) \<and>
    content db' t (cidr_namespace c) = content db t (cidr_namespace c)"
  using kvstore.remove_content [OF assms(1) assms(2) [unfolded remove_ip_def] assms(3)]
    prefix_same_length [OF assms(4) [symmetric]] by auto

text \<open>
  Removing an autonomous system from the block list also unblocks every one whose number begins with the
  same digits, since \<open>Remove\<close> takes a prefix: removing AS 7 unblocks AS 77.
\<close>

theorem remove_asn_by_prefix:
  assumes "kvstore K content" and "remove_asn K now (Some a) db = Inr (Inr db')" and "now \<le> t"
    and "0 < asn_number a" and "0 < n"
  shows "content db' t (asn_namespace n) =
    (if prefix (show_int (asn_number a)) (show_int n) then None else content db t (asn_namespace n))"
  using kvstore.remove_content [OF assms(1) _ assms(3), of db "asn_namespace (asn_number a)" db' "asn_namespace n"]
    assms(2) prefix_asn_namespace [OF assms(4,5)]
  by (simp add: remove_asn_def)

text \<open>
  After \<open>Clear\<close> nothing is blocked.
\<close>

theorem clear_unblocks:
  assumes "kvstore K content" and "kv_remove K db now ''bl'' = Inr db'"
    and "now \<le> t1" and "now \<le> t2" and "now \<le> t3" and "asn_network a = Some network"
  shows "is_blocked K J t1 t2 t3 (clear K now db) ip (Some a) = Inr False"
proof -
  have none: "content (clear K now db) t k = None" if "now \<le> t" and "prefix ''bl'' k" for t k
    using kvstore.clear_content [OF assms(1,2) that(1)] that(2) by simp
  have no_get: "isl (kv_get K (clear K now db) t k)" if "now \<le> t" and "prefix ''bl'' k" for t k
    using kvstore.get_Inr [OF assms(1)] none [OF that] by (cases "kv_get K (clear K now db) t k") auto
  have "isl (get_ip K J t1 (clear K now db) ip)"
    using none [OF assms(3)] by (intro get_ip_none [OF assms(1)]) simp
  moreover have "is_blocked_by_asn K J t2 t3 (clear K now db) (Some a) = Inr (False, Reason [])"
    using no_get [OF assms(4), of "asn_namespace (asn_number a)"]
      no_get [OF assms(5), of "cidr_namespace (ipnet_string network)"] assms(6)
    by (auto simp: is_blocked_by_asn_def get_asn_def get_network_def isl_def)
  ultimately show ?thesis by (simp add: is_blocked_not_ip)
qed

section \<open>The recheck after a change of the whitelist\<close>

text \<open>
  The invariant of the entries under \<open>bl:ip:\<close>: each is the marshalled message of the address in its key.
\<close>

definition ip_entries :: "(time \<Rightarrow> string \<Rightarrow> string option) \<Rightarrow> block_json \<Rightarrow> (ip_block_message \<Rightarrow> bool) \<Rightarrow> time \<Rightarrow> bool" where
  "ip_entries held J ip_ok t \<longleftrightarrow>
     (\<forall>ip v. held t (ip_namespace ip) = Some v \<longrightarrow> (\<exists>m. ip_ok m \<and> js_marshal (bj_ip J) m = Inr v \<and> ibm_ip m = ip))"

definition message_details :: "ip_block_message \<Rightarrow> ip_details" where
  "message_details m = details0\<lparr>id_ip := ibm_ip m, id_hostname := ibm_hostname m, id_asn := st_asn m\<rparr>"

lemma str_of_bytes_surj: "\<exists>bs. str_of_bytes bs = s"
proof
  show "str_of_bytes (map (\<lambda>c. of_nat (of_char c)) s) = s"
  proof (induction s)
    case Nil
    then show ?case by (simp add: str_of_bytes_def)
  next
    case (Cons c s)
    have "(of_char c :: nat) < 256" by (rule nat_of_char_less_256)
    then have "unat (of_nat (of_char c) :: byte) = (of_char c :: nat)" by (simp add: unat_of_nat)
    with Cons show ?case by (simp add: str_of_bytes_def)
  qed
qed

lemma prefix_ip_namespace_cases:
  assumes "prefix (ip_namespace []) k"
  obtains ip where "k = ip_namespace ip"
proof -
  obtain s where k: "k = ip_namespace [] @ s" using assms by (auto simp: prefix_def)
  obtain bs where "str_of_bytes bs = s" using str_of_bytes_surj by blast
  with k have "k = ip_namespace bs" by (auto simp: ip_namespace_def str_of_bytes_def)
  with that show ?thesis .
qed

lemma is_whitelisted_view:
  "id_ip d = id_ip d' \<Longrightarrow> id_hostname d = id_hostname d' \<Longrightarrow> id_asn d = id_asn d' \<Longrightarrow>
     is_whitelisted wl d = is_whitelisted wl d'"
  by (simp add: is_whitelisted_def cong: option.case_cong)

lemma decoded_whitelisted:
  assumes "block_codec J ip_ok asn_ok network_ok" and "ip_ok m" and "js_marshal (bj_ip J) m = Inr s"
  shows "is_whitelisted wl (fst (bj_details J s d)) = is_whitelisted wl (message_details m)"
  using block_codec.details [OF assms, of d] by (intro is_whitelisted_view) (simp_all add: message_details_def)

text \<open>The loop over entries that are marshalled messages removes those that are whitelisted.\<close>

lemma recheck_loop_shrinks:
  assumes K: "kvstore K content" and "now \<le> t"
  shows "recheck_loop K J wl now vs d db = Inr db' \<Longrightarrow> content db' t k = Some v \<Longrightarrow> content db t k = Some v"
proof (induction vs arbitrary: d db)
  case Nil
  then show ?case by simp
next
  case (Cons e vs)
  obtain w where w: "is_whitelisted wl (fst (bj_details J e d)) = Inr w"
    using Cons.prems(1) by (auto simp: Let_def split: sum.splits)
  let ?db = "case remove_ip K now (id_ip (fst (bj_details J e d))) db of Inl _ \<Rightarrow> db | Inr db' \<Rightarrow> db'"
  have "content ?db t k = Some v \<Longrightarrow> content db t k = Some v"
    using kvstore.remove_content [OF K _ assms(2)] by (auto simp: remove_ip_def split: sum.splits if_splits)
  then show ?case
    using Cons.IH Cons.prems w by (auto simp: Let_def split: prod.splits if_splits)
qed

lemma recheck_loop_removes:
  assumes K: "kvstore K content" and J: "block_codec J ip_ok asn_ok network_ok" and "now \<le> t"
    and rm: "\<And>d p. \<not> isl (kv_remove K d now p)"
    and m: "ip_ok m" "js_marshal (bj_ip J) m = Inr s" "is_whitelisted wl (message_details m) = Inr (True, r)"
  shows "recheck_loop K J wl now vs d db = Inr db' \<Longrightarrow> s \<in> set vs \<Longrightarrow> content db' t (ip_namespace (ibm_ip m)) = None"
proof (induction vs arbitrary: d db)
  case Nil
  then show ?case by simp
next
  case (Cons e vs)
  show ?case
  proof (cases "s \<in> set vs")
    case True
    then show ?thesis using Cons by (auto simp: Let_def split: sum.splits if_splits)
  next
    case False
    with Cons.prems have e: "e = s" by simp
    let ?d = "fst (bj_details J s d)"
    have wl: "is_whitelisted wl ?d = Inr (True, r)" and ip: "id_ip ?d = ibm_ip m"
      using decoded_whitelisted [OF J m(1,2)] m(3) block_codec.details [OF J m(1,2)] by auto
    obtain db1 where db1: "remove_ip K now (ibm_ip m) db = Inr db1"
      using rm [of db "ip_namespace (ibm_ip m)"] by (auto simp: remove_ip_def isl_def split: sum.splits)
        (metis sum.exhaust)
    have gone: "content db1 t (ip_namespace (ibm_ip m)) = None"
      using kvstore.remove_content [OF K db1 [unfolded remove_ip_def] assms(3)] by simp
    have "recheck_loop K J wl now vs (?d\<lparr>id_whitelisted := True\<rparr>) db1 = Inr db'"
      using Cons.prems(1) wl by (simp add: e Let_def ip db1)
    from recheck_loop_shrinks [OF K assms(3) this] gone show ?thesis
      by (metis not_None_eq)
  qed
qed

text \<open>
  C27: After the recheck that follows a change of the whitelist, every address that is still blocked is one
  that the new rules do not whitelist, provided every entry could be read and removed.
\<close>

theorem recheck_unblocks:
  assumes "kvstore K content" and "block_codec J ip_ok asn_ok network_ok"
    and "ip_entries (content db) J ip_ok now" and "snd (kv_each K db now (ip_namespace [])) = None"
    and "\<And>d p. \<not> isl (kv_remove K d now' p)" and "now \<le> now'" and "now' \<le> t"
    and "recheck K J wl now now' db = Inr db'" and "content db' t (ip_namespace ip) = Some v"
  shows "\<exists>m. js_marshal (bj_ip J) m = Inr v \<and> ibm_ip m = ip \<and>
    (\<forall>r. is_whitelisted wl (message_details m) \<noteq> Inr (True, r))"
proof -
  let ?vs = "fst (kv_each K db now (ip_namespace []))"
  have loop: "recheck_loop K J wl now' ?vs details0 db = Inr db'" using assms(8) by (simp add: recheck_def)
  have "content db t (ip_namespace ip) = Some v"
    using recheck_loop_shrinks [OF assms(1,7) loop assms(9)] .
  then have held: "content db now (ip_namespace ip) = Some v"
    using assms(6,7) by (intro kvstore.expiry [OF assms(1), of now t]) auto
  then obtain m where m: "ip_ok m" "js_marshal (bj_ip J) m = Inr v" "ibm_ip m = ip"
    using assms(3) unfolding ip_entries_def by blast
  have "v \<in> set ?vs"
    using kvstore.each_content [OF assms(1), of db now "ip_namespace []" ?vs] held assms(4)
    by (metis (mono_tags, lifting) mem_Collect_eq prefix_ip_namespace prefix_bot.bot_least prod.collapse)
  then have "is_whitelisted wl (message_details m) \<noteq> Inr (True, r)" for r
    using recheck_loop_removes [OF assms(1,2,7,5) m(1,2) _ loop] assms(9) m(3) by fastforce
  with m show ?thesis by blast
qed

text \<open>
  \<open>BlockIP\<close> keeps the invariant of the entries: each holds the message of the address in its key.
\<close>

theorem block_ip_entries:
  assumes "kvstore K content" and "ip_ok msg" and "ip_entries (content db) J ip_ok t" and "now' \<le> t"
  shows "ip_entries (content (snd (block_ip K J ttl now now' msg db))) J ip_ok t"
proof -
  let ?key = "ip_namespace (ibm_ip msg)" and ?db = "snd (block_ip K J ttl now now' msg db)"
  have "?db = db \<or> (\<exists>s. js_marshal (bj_ip J) msg = Inr s \<and> kv_setex K db now' ?key s ttl = Inr ?db)"
    by (auto simp: block_ip_def write_once_def Let_def split: sum.splits store_error.splits)
  then show ?thesis
  proof
    assume "?db = db"
    then show ?thesis using assms(3) by simp
  next
    assume "\<exists>s. js_marshal (bj_ip J) msg = Inr s \<and> kv_setex K db now' ?key s ttl = Inr ?db"
    then obtain s where s: "js_marshal (bj_ip J) msg = Inr s" "kv_setex K db now' ?key s ttl = Inr ?db"
      by blast
    show ?thesis
      unfolding ip_entries_def
    proof (intro allI impI)
      fix ip v assume held: "content ?db t (ip_namespace ip) = Some v"
      show "\<exists>m. ip_ok m \<and> js_marshal (bj_ip J) m = Inr v \<and> ibm_ip m = ip"
      proof (cases "ip = ibm_ip msg")
        case True
        with held kvstore.setex_value [OF assms(1) s(2) assms(4)] have "v = s" by auto
        with s(1) assms(2) True show ?thesis by blast
      next
        case False
        with held kvstore.setex_other [OF assms(1) s(2) assms(4), of "ip_namespace ip"] assms(3)
        show ?thesis by (auto simp: ip_entries_def)
      qed
    qed
  qed
qed

section \<open>Witnesses: the store in memory\<close>

definition wit_asn :: asn where
  "wit_asn = \<lparr>asn_network = Some \<lparr>net_ip = [10, 0, 0, 0], net_mask = [255, 0, 0, 0]\<rparr>, asn_cidr = ''10.0.0.0/8'',
     asn_number = 7, asn_org = ''Example''\<rparr>"

definition wit_ip :: ip where
  "wit_ip = v4_prefix @ [10, 1, 2, 3]"

definition wit_msg :: ip_block_message where
  "wit_msg = \<lparr>st_total = 400, st_app = 301, st_other = 99, st_ratio = ratio_of 301 400, st_ips = 0,
     st_asn = Some wit_asn, bm_reason = TooManyRequests 301 300, bm_city = Some ''Wien'', bm_blocked_at = 5 * second,
     ibm_ip = wit_ip, ibm_hostname = ''bot.example.org''\<rparr>"

definition wit_bytes :: string where
  "wit_bytes = unary (to_nat wit_msg)"

definition wit_db :: memdb where
  "wit_db = RBT.insert (ip_namespace wit_ip) (wit_bytes, Some 65) RBT.empty"

lemma wit_ip_not_Nil [simp]: "wit_ip \<noteq> []"
  by (simp add: wit_ip_def)

lemma wit_ibm_ip [simp]: "ibm_ip wit_msg = wit_ip"
  by (simp add: wit_msg_def)

lemma wit_marshal [simp]: "js_marshal (bj_ip num_block_json) wit_msg = Inr wit_bytes"
  by (simp add: num_block_json_def num_json_marshal wit_bytes_def)

lemma wit_block_ip: "block_ip mem_kv num_block_json (60 * second) 0 (5 * second) wit_msg RBT.empty = (None, wit_db)"
  by (simp add: block_ip_def write_once_def mem_simps wit_db_def second_def)

lemma block_ip_blocks_witness:
  "is_blocked mem_kv num_block_json (64 * second) 70 71 wit_db wit_ip None = Inr True"
  using block_ip_blocks [OF mem_kvstore num_block.block_codec_axioms TrueI wit_block_ip, of "64 * second" 70 71 None]
  by (simp add: mem_simps mem_answers second_def)

lemma block_ip_ends_witness:
  "is_blocked mem_kv num_block_json (65 * second) (65 * second) (65 * second) wit_db wit_ip None = Inl NilDereference"
  using block_ip_ends [OF mem_kvstore wit_block_ip, of "65 * second" "65 * second" "65 * second" None]
  by (simp add: mem_simps second_def is_blocked_by_asn_def)

lemma block_ip_idempotent_witness:
  "snd (block_ip mem_kv num_block_json (9 * second) (20 * second) (20 * second) wit_msg wit_db) = wit_db"
  using block_ip_idempotent [OF mem_kvstore num_block.block_codec_axioms TrueI wit_block_ip, of "20 * second" wit_msg "9 * second"]
  by (simp add: mem_simps second_def)

lemma mem_remove_gone:
  "\<exists>db'. kv_remove mem_kv db now p = Inr db'"
  using mem_kv_remove_ok [of db now p] by (auto simp: isl_def) (metis sum.exhaust)

lemma remove_ip_exact_witness:
  "\<exists>db'. remove_ip mem_kv (6 * second) wit_ip wit_db = Inr db' \<and>
     mem_content wit_db (6 * second) (ip_namespace wit_ip) = Some wit_bytes \<and>
     mem_content db' (6 * second) (ip_namespace wit_ip) = None"
proof -
  obtain db' where db': "remove_ip mem_kv (6 * second) wit_ip wit_db = Inr db'"
    using mem_remove_gone unfolding remove_ip_def by blast
  moreover have "mem_content wit_db (6 * second) (ip_namespace wit_ip) = Some wit_bytes"
    by (simp add: wit_db_def mem_simps second_def)
  ultimately show ?thesis
    using remove_ip_exact [OF mem_kvstore db' order_refl refl] by simp
qed

definition wit_asn_db :: memdb where
  "wit_asn_db = RBT.insert (asn_namespace 77) (''x'', None) RBT.empty"

lemma remove_asn_by_prefix_witness:
  "\<exists>db'. remove_asn mem_kv 0 (Some wit_asn) wit_asn_db = Inr (Inr db') \<and>
     mem_content wit_asn_db 0 (asn_namespace 77) = Some ''x'' \<and> mem_content db' 0 (asn_namespace 77) = None"
proof -
  obtain db' where db': "remove_asn mem_kv 0 (Some wit_asn) wit_asn_db = Inr (Inr db')"
    using mem_remove_gone [of wit_asn_db 0 "asn_namespace (asn_number wit_asn)"] by (auto simp: remove_asn_def)
  have "prefix (show_int (asn_number wit_asn)) (show_int 77)" by code_simp
  then show ?thesis
    using remove_asn_by_prefix [OF mem_kvstore db' order_refl, of 77] db'
    by (simp add: wit_asn_def wit_asn_db_def mem_simps)
qed

lemma clear_unblocks_witness:
  "is_blocked mem_kv num_block_json (6 * second) (6 * second) (6 * second) wit_db wit_ip (Some wit_asn) = Inr True \<and>
   is_blocked mem_kv num_block_json (6 * second) (6 * second) (6 * second) (clear mem_kv (6 * second) wit_db)
     wit_ip (Some wit_asn) = Inr False"
proof -
  obtain db' where db': "kv_remove mem_kv wit_db (6 * second) ''bl'' = Inr db'"
    using mem_remove_gone by blast
  have "kv_get mem_kv wit_db (6 * second) (ip_namespace wit_ip) = Inr wit_bytes"
    by (simp add: wit_db_def mem_simps second_def)
  from get_ip_marshalled [OF num_block.block_codec_axioms TrueI wit_marshal this]
  show ?thesis
    using clear_unblocks [OF mem_kvstore db' order_refl order_refl order_refl] by (simp add: is_blocked_ip wit_asn_def)
qed

definition wit_whitelist :: whitelist where
  "wit_whitelist = new_whitelist\<lparr>wl_asns := [8 \<mapsto> ''partner'']\<rparr>"

lemma wit_entries: "ip_entries (mem_content wit_db) num_block_json (\<lambda>_. True) t"
  by (auto simp: ip_entries_def wit_db_def mem_simps intro!: exI [of _ wit_msg])

lemma wit_decode: "num_decode wit_bytes = wit_msg"
  by (simp add: wit_bytes_def)

lemma wit_not_whitelisted: "is_whitelisted wit_whitelist (message_details wit_msg) = Inr (False, [])"
  by (simp add: is_whitelisted_def message_details_def wit_whitelist_def new_whitelist_def wit_msg_def wit_asn_def)

lemma wit_recheck: "recheck mem_kv num_block_json wit_whitelist (6 * second) (6 * second) wit_db = Inr wit_db"
proof -
  have "is_whitelisted wit_whitelist (fst (bj_details num_block_json wit_bytes details0)) = Inr (False, [])"
    using decoded_whitelisted [OF num_block.block_codec_axioms TrueI wit_marshal] wit_not_whitelisted by simp
  moreover have "kv_each mem_kv wit_db (6 * second) (ip_namespace []) = ([wit_bytes], None)"
    by (simp add: wit_db_def mem_simps second_def)
  ultimately show ?thesis by (simp add: recheck_def Let_def)
qed

lemma recheck_unblocks_witness:
  "\<exists>m. js_marshal (bj_ip num_block_json) m = Inr wit_bytes \<and> ibm_ip m = wit_ip \<and>
    (\<forall>r. is_whitelisted wit_whitelist (message_details m) \<noteq> Inr (True, r))"
proof (rule recheck_unblocks [OF mem_kvstore num_block.block_codec_axioms wit_entries mem_kv_each_ok
      mem_kv_remove_ok order_refl order_refl wit_recheck])
  show "mem_content wit_db (6 * second) (ip_namespace wit_ip) = Some wit_bytes"
    by (simp add: wit_db_def mem_simps second_def)
qed

lemma block_ip_entries_witness:
  "ip_entries (mem_content (snd (block_ip mem_kv num_block_json (60 * second) 0 (5 * second) wit_msg RBT.empty)))
     num_block_json (\<lambda>_. True) (5 * second)"
proof (rule block_ip_entries [OF mem_kvstore TrueI _ order_refl])
  show "ip_entries (mem_content RBT.empty) num_block_json (\<lambda>_. True) (5 * second)"
    by (simp add: ip_entries_def mem_simps)
qed

end
