(* ===== verification/Resolver.thy ===== *)
theory Resolver
  imports Store Net
begin

text \<open>
  \<^verbatim>\<open>resolver.go\<close>: reverse DNS lookups, cached in the key/value store, retried through a NATS topic. The
  DNS library and NATS are parameters: what a lookup finds is the argument \<open>dns\<close>, and the topic is a
  multiset of messages, since NATS promises neither their order nor their delivery. The workers are the
  step relation \<open>resolver_step\<close>.
\<close>

section \<open>State and operations\<close>

record ip_resolv =
  rp_ip :: ip
  rp_host :: string
  rp_err :: string
  rp_tries :: int
  rp_start :: time
  rp_end :: time

definition new_ip_resolv :: "time \<Rightarrow> ip \<Rightarrow> ip_resolv" where
  "new_ip_resolv now ip =
     \<lparr>rp_ip = ip, rp_host = [], rp_err = [], rp_tries = 0, rp_start = now, rp_end = zero_time\<rparr>"

definition time_taken :: "time \<Rightarrow> ip_resolv \<Rightarrow> duration" where
  "time_taken now rip =
     (if rp_end rip > rp_start rip then time_sub (rp_end rip) (rp_start rip) else time_sub now (rp_start rip))"

definition resolve_namespace :: "string \<Rightarrow> string" where
  "resolve_namespace ip = ''rl'' @ '':'' @ ''ip'' @ '':'' @ ip"

text \<open>\<open>Resolve\<close>: the message to publish, \<open>None\<close> when there were too many tries.\<close>

definition resolve_ip :: "int \<Rightarrow> ip_resolv \<Rightarrow> ip_resolv option" where
  "resolve_ip max_tries rip =
     (let rip1 = rip\<lparr>rp_tries := i64 (rp_tries rip + 1), rp_err := []\<rparr>
      in if rp_tries rip1 > max_tries then None else Some rip1)"

text \<open>
  \<open>reverseDNSLookup\<close>: \<open>exchange\<close> is the library's query for the reverse name of the address, an error or the
  answers, each \<open>Some\<close> name if it is a PTR record. The hostname is the name less its last character.
\<close>

definition reverse_dns_lookup :: "(ip \<Rightarrow> string + string option list) \<Rightarrow> ip \<Rightarrow> panic + (string + string)" where
  "reverse_dns_lookup exchange ip =
     (if ip = [] then Inr (Inl ''ip is nil'')
      else case exchange ip of
             Inl err \<Rightarrow> Inr (Inl err)
           | Inr rrs \<Rightarrow>
               (case rrs of
                  Some name # _ \<Rightarrow> if name = [] then Inl IndexOutOfRange else Inr (Inr (butlast name))
                | _ \<Rightarrow> Inr (Inr (ip_string (ip_to16 ip)))))"

text \<open>
  \<open>reverseLookup\<close>: what is sent on \<open>outChan\<close>, what is published again, and the store. An entry that is empty
  is no answer: it is handled like an error of the store. \<open>outChanIsClosed\<close> is set nowhere.
\<close>

definition reverse_lookup :: "'db kvstore_api \<Rightarrow> config \<Rightarrow> (ip \<Rightarrow> string + string option list) \<Rightarrow> time \<Rightarrow> time
    \<Rightarrow> bool \<Rightarrow> ip_resolv \<Rightarrow> 'db \<Rightarrow> panic + ip_resolv option \<times> ip_resolv option \<times> 'db" where
  "reverse_lookup K cfg exchange now now' out_closed rip db =
     (let key = resolve_namespace (ip_string (rp_ip rip))
      in if out_closed then Inr (None, None, db)
         else case kv_get K db now key of
                Inr data \<Rightarrow>
                  if data \<noteq> [] then Inr (Some (rip\<lparr>rp_host := data\<rparr>), None, db)
                  else Inr (None, resolve_ip (cf_resolver_tries cfg) rip, db)
              | Inl NotFound \<Rightarrow>
                  (case reverse_dns_lookup exchange (rp_ip rip) of
                     Inl p \<Rightarrow> Inl p
                   | Inr (Inl err) \<Rightarrow> Inr (None, resolve_ip (cf_resolver_tries cfg) (rip\<lparr>rp_err := ''not found''\<rparr>), db)
                   | Inr (Inr hostname) \<Rightarrow>
                       Inr (Some (rip\<lparr>rp_host := hostname\<rparr>), None,
                            (case kv_setex K db now' key hostname (cf_resolver_ttl cfg) of Inl _ \<Rightarrow> db | Inr db' \<Rightarrow> db')))
              | Inl _ \<Rightarrow> Inr (None, resolve_ip (cf_resolver_tries cfg) rip, db))"

section \<open>The workers\<close>

text \<open>The topic, the results sent to the application so far, and the store.\<close>

record 'db resolver_state =
  rv_topic :: "ip_resolv multiset"
  rv_out :: "ip_resolv list"
  rv_db :: 'db

definition opt_mset :: "'a option \<Rightarrow> 'a multiset" where
  "opt_mset x = (case x of None \<Rightarrow> {#} | Some a \<Rightarrow> {#a#})"

inductive resolver_step :: "'db kvstore_api \<Rightarrow> config \<Rightarrow> 'db resolver_state \<Rightarrow> 'db resolver_state \<Rightarrow> bool"
  for K :: "'db kvstore_api" and cfg :: config where
  work: "rip \<in># rv_topic s \<Longrightarrow>
    reverse_lookup K cfg exchange now now' False rip (rv_db s) = Inr (sent, again, db') \<Longrightarrow>
    resolver_step K cfg s
      \<lparr>rv_topic = rv_topic s - {#rip#} + opt_mset again, rv_out = rv_out s @ (case sent of None \<Rightarrow> [] | Some r \<Rightarrow> [r]),
       rv_db = db'\<rparr>"
| lose: "rip \<in># rv_topic s \<Longrightarrow> resolver_step K cfg s (s\<lparr>rv_topic := rv_topic s - {#rip#}\<rparr>)"

inductive_cases resolver_stepE: "resolver_step K cfg s s'"

text \<open>The work left: for every message on the topic the tries it has left, and one for the message itself.\<close>

definition tries_left :: "config \<Rightarrow> ip_resolv \<Rightarrow> nat" where
  "tries_left cfg rip = Suc (nat (cf_resolver_tries cfg - rp_tries rip))"

definition work_left :: "config \<Rightarrow> 'db resolver_state \<Rightarrow> nat" where
  "work_left cfg s = sum_mset (image_mset (tries_left cfg) (rv_topic s))"

definition tries_ok :: "config \<Rightarrow> 'db resolver_state \<Rightarrow> bool" where
  "tries_ok cfg s \<longleftrightarrow> (\<forall>rip \<in># rv_topic s. 0 \<le> rp_tries rip \<and> rp_tries rip \<le> cf_resolver_tries cfg)"

lemma resolve_Some:
  assumes "resolve_ip max_tries rip = Some rip'" and "0 \<le> rp_tries rip" and "rp_tries rip \<le> max_tries" and "max_tries < 2 ^ 63 - 1"
  shows "rp_tries rip' = rp_tries rip + 1" and "rp_tries rip' \<le> max_tries" and "rp_err rip' = []" and "rp_ip rip' = rp_ip rip"
proof -
  have "i64 (rp_tries rip + 1) = rp_tries rip + 1" using assms by (intro i64_nonneg_id) auto
  then show "rp_tries rip' = rp_tries rip + 1" and "rp_tries rip' \<le> max_tries" and "rp_err rip' = []"
    and "rp_ip rip' = rp_ip rip"
    using assms(1) by (auto simp: resolve_ip_def Let_def split: if_splits)
qed

lemma reverse_lookup_again:
  "reverse_lookup K cfg exchange now now' c rip db = Inr (sent, Some again, db') \<Longrightarrow>
     \<exists>err. resolve_ip (cf_resolver_tries cfg) (rip\<lparr>rp_err := err\<rparr>) = Some again"
  by (auto simp: reverse_lookup_def resolve_ip_def Let_def split: sum.splits store_error.splits if_splits)

lemma reverse_lookup_sent:
  "reverse_lookup K cfg exchange now now' c rip db = Inr (Some r, again, db') \<Longrightarrow>
     rp_ip r = rp_ip rip \<and> rp_err r = rp_err rip \<and> again = None"
  by (auto simp: reverse_lookup_def Let_def split: sum.splits store_error.splits if_splits)

lemma tries_left_again:
  assumes "reverse_lookup K cfg exchange now now' c rip db = Inr (sent, Some again, db')"
    and "0 \<le> rp_tries rip" and "rp_tries rip \<le> cf_resolver_tries cfg" and "cf_resolver_tries cfg < 2 ^ 63 - 1"
  shows "tries_left cfg again < tries_left cfg rip" and "0 \<le> rp_tries again"
    and "rp_tries again \<le> cf_resolver_tries cfg" and "rp_err again = []"
proof -
  obtain err where res: "resolve_ip (cf_resolver_tries cfg) (rip\<lparr>rp_err := err\<rparr>) = Some again"
    using reverse_lookup_again [OF assms(1)] by blast
  note r = resolve_Some [OF res] assms(2-4)
  show "tries_left cfg again < tries_left cfg rip" and "0 \<le> rp_tries again"
    and "rp_tries again \<le> cf_resolver_tries cfg" and "rp_err again = []"
    using r by (auto simp: tries_left_def)
qed

lemma resolver_step_decreases:
  assumes "resolver_step K cfg s s'" and ok: "tries_ok cfg s" and "cf_resolver_tries cfg < 2 ^ 63 - 1"
  shows "work_left cfg s' < work_left cfg s \<and> tries_ok cfg s'"
  using assms(1)
proof (cases rule: resolver_step.cases)
  case (work rip exchange now now' sent again db')
  have rip: "0 \<le> rp_tries rip" "rp_tries rip \<le> cf_resolver_tries cfg" using ok work(2) by (auto simp: tries_ok_def)
  obtain q where q: "rv_topic s = add_mset rip q" using work(2) by (metis mset_add)
  show ?thesis
  proof (cases again)
    case None
    with q ok work(1) show ?thesis by (simp add: work_left_def tries_ok_def opt_mset_def tries_left_def)
  next
    case (Some r)
    note t = tries_left_again [OF work(3) [unfolded Some] rip assms(3)]
    with q ok work(1) Some show ?thesis by (auto simp: work_left_def tries_ok_def opt_mset_def)
  qed
next
  case (lose rip)
  obtain q where q: "rv_topic s = add_mset rip q" using lose(2) by (metis mset_add)
  with ok lose(1) show ?thesis by (simp add: work_left_def tries_ok_def tries_left_def)
qed

text \<open>What has been sent so far carries no error.\<close>

definition no_errors :: "'db resolver_state \<Rightarrow> bool" where
  "no_errors s \<longleftrightarrow> (\<forall>rip \<in># rv_topic s. rp_err rip = []) \<and> list_all (\<lambda>rip. rp_err rip = []) (rv_out s)"

lemma resolve_err: "resolve_ip n rip = Some rip' \<Longrightarrow> rp_err rip' = []"
  by (auto simp: resolve_ip_def Let_def split: if_splits)

lemma resolver_step_no_errors:
  assumes "resolver_step K cfg s s'" and "no_errors s"
  shows "no_errors s'"
  using assms(1)
proof (cases rule: resolver_step.cases)
  case (work rip exchange now now' sent again db')
  have topic: "rp_err r = []" if "r \<in># rv_topic s - {#rip#}" for r
    using assms(2) that by (auto simp: no_errors_def dest: in_diffD)
  have "rp_err rip = []" using assms(2) work(2) by (simp add: no_errors_def)
  then have "rp_err r = []" if "sent = Some r" for r
    using reverse_lookup_sent [OF work(3) [unfolded that]] by simp
  moreover have "rp_err r = []" if "again = Some r" for r
    using reverse_lookup_again [OF work(3) [unfolded that]] resolve_err by blast
  ultimately show ?thesis
    using topic assms(2) work(1) by (auto simp: no_errors_def opt_mset_def split: option.splits)
next
  case (lose rip)
  then show ?thesis using assms(2) by (auto simp: no_errors_def dest: in_diffD)
qed

section \<open>Properties\<close>

text \<open>
  C35: The retries end: from any topic whose messages are within their tries, the workers make only finitely
  many steps, whatever the store, the DNS and NATS do.
\<close>

theorem resolver_terminates:
  assumes "cf_resolver_tries cfg < 2 ^ 63 - 1" and "tries_ok cfg (f 0)"
  shows "\<exists>i. \<not> resolver_step K cfg (f i) (f (Suc i))"
proof (rule ccontr)
  assume "\<not> ?thesis"
  then have steps: "resolver_step K cfg (f i) (f (Suc i))" for i by blast
  have "tries_ok cfg (f i) \<and> work_left cfg (f i) + i \<le> work_left cfg (f 0)" for i
  proof (induction i)
    case 0
    then show ?case using assms(2) by simp
  next
    case (Suc i)
    then show ?case using resolver_step_decreases [OF steps [of i] _ assms(1)] by fastforce
  qed
  from this [of "Suc (work_left cfg (f 0))"] show False by simp
qed

text \<open>
  The application never learns that a lookup has failed: whatever the workers send carries no error, so
  the branch of \<open>resolvWorker\<close> for failed lookups is dead, and an address given up on keeps the hostname
  \<open>resolving\<close>, with which it is never blocked.
\<close>

theorem resolver_never_reports:
  assumes "(resolver_step K cfg)\<^sup>*\<^sup>* s s'" and "no_errors s"
  shows "list_all (\<lambda>rip. rp_err rip = []) (rv_out s')"
proof -
  from assms have "no_errors s'"
    by (induction rule: rtranclp_induct) (auto intro: resolver_step_no_errors)
  then show ?thesis by (simp add: no_errors_def)
qed

text \<open>
  A hostname found by DNS is cached: until one second before the time to live ends, a lookup of the same
  address is answered from the store, without a query and without writing.
\<close>

theorem lookup_cached:
  assumes "kvstore K content" and "reverse_lookup K cfg exchange now now' False rip db = Inr (Some r, None, db')"
    and "content db now (resolve_namespace (ip_string (rp_ip rip))) = None"
    and "\<And>v. \<not> isl (kv_setex K db now' (resolve_namespace (ip_string (rp_ip rip))) v (cf_resolver_ttl cfg))"
    and "rp_host r \<noteq> []" and "now' \<le> t" and "t + second \<le> now' + cf_resolver_ttl cfg"
    and "answers K db' t (resolve_namespace (ip_string (rp_ip rip)))" and "rp_ip q = rp_ip rip"
  shows "reverse_lookup K cfg exchange' t t' False q db' = Inr (Some (q\<lparr>rp_host := rp_host r\<rparr>), None, db')"
proof -
  let ?key = "resolve_namespace (ip_string (rp_ip rip))"
  have "kv_get K db now ?key \<noteq> Inr v" for v using kvstore.get_Inr [OF assms(1), of db now ?key v] assms(3) by auto
  then have "\<exists>hostname. r = rip\<lparr>rp_host := hostname\<rparr> \<and>
      db' = (case kv_setex K db now' ?key hostname (cf_resolver_ttl cfg) of Inl _ \<Rightarrow> db | Inr d \<Rightarrow> d)"
    using assms(2) by (auto simp: reverse_lookup_def Let_def split: sum.splits store_error.splits)
  then have "kv_setex K db now' ?key (rp_host r) (cf_resolver_ttl cfg) = Inr db'"
    using assms(4) [of "rp_host r"] by (cases "kv_setex K db now' ?key (rp_host r) (cf_resolver_ttl cfg)") auto
  from kvstore.setex_live [OF assms(1) this assms(6,7)]
  have "kv_get K db' t ?key = Inr (rp_host r)" using kvstore.get_answers [OF assms(1,8)] by simp
  then show ?thesis using assms(5,9) by (simp add: reverse_lookup_def Let_def)
qed

section \<open>Witnesses\<close>

definition wit_rip :: ip_resolv where
  "wit_rip = new_ip_resolv 0 (v4_prefix @ [10, 1, 2, 3])"

definition wit_topic :: "memdb resolver_state" where
  "wit_topic = \<lparr>rv_topic = {#wit_rip#}, rv_out = [], rv_db = RBT.empty\<rparr>"

definition wit_ptr :: "ip \<Rightarrow> string + string option list" where
  "wit_ptr ip = Inr [Some ''bot.example.org.'']"

definition wit_cache :: memdb where
  "wit_cache = RBT.insert (resolve_namespace (ip_string (rp_ip wit_rip))) (''bot.example.org'', Some 86401) RBT.empty"

lemma wit_rip_ip: "rp_ip wit_rip \<noteq> []"
  by (simp add: wit_rip_def new_ip_resolv_def)

lemma wit_lookup:
  "reverse_lookup mem_kv wit_cfg wit_ptr 0 second False wit_rip RBT.empty =
     Inr (Some (wit_rip\<lparr>rp_host := ''bot.example.org''\<rparr>), None, wit_cache)"
  by (simp add: reverse_lookup_def mem_simps Let_def reverse_dns_lookup_def wit_rip_ip wit_ptr_def wit_cache_def
      wit_cfg_def second_def)

lemma wit_step: "resolver_step mem_kv wit_cfg wit_topic
    \<lparr>rv_topic = {#}, rv_out = [wit_rip\<lparr>rp_host := ''bot.example.org''\<rparr>], rv_db = wit_cache\<rparr>"
  using resolver_step.work [of wit_rip wit_topic mem_kv wit_cfg wit_ptr 0 second
      "Some (wit_rip\<lparr>rp_host := ''bot.example.org''\<rparr>)" None wit_cache]
  by (simp add: wit_topic_def wit_lookup opt_mset_def)

lemma resolver_terminates_witness:
  "\<exists>i. \<not> resolver_step mem_kv wit_cfg
     (if i = 0 then wit_topic else wit_topic\<lparr>rv_topic := {#}\<rparr>) (if Suc i = 0 then wit_topic else wit_topic\<lparr>rv_topic := {#}\<rparr>)"
  by (rule resolver_terminates)
    (simp_all add: wit_cfg_def tries_ok_def wit_topic_def wit_rip_def new_ip_resolv_def)

lemma resolver_never_reports_witness:
  "list_all (\<lambda>rip. rp_err rip = []) [wit_rip\<lparr>rp_host := ''bot.example.org''\<rparr>]"
  using resolver_never_reports [OF r_into_rtranclp [where r = "resolver_step mem_kv wit_cfg", OF wit_step]]
  by (simp add: no_errors_def wit_topic_def wit_rip_def new_ip_resolv_def)

lemma lookup_cached_witness:
  "reverse_lookup mem_kv wit_cfg (\<lambda>_. Inl ''timeout'') (60 * second) (60 * second) False wit_rip wit_cache =
     Inr (Some (wit_rip\<lparr>rp_host := ''bot.example.org''\<rparr>), None, wit_cache)"
  using lookup_cached [OF mem_kvstore wit_lookup, of "60 * second" wit_rip "\<lambda>_. Inl ''timeout''" "60 * second"]
  by (simp add: mem_simps mem_answers second_def wit_cfg_def)

end
