(* ===== verification/Botex.thy ===== *)
theory Botex
  imports History Block Resolver
begin

text \<open>
  \<^verbatim>\<open>botex.go\<close>: handling requests and the workers that connect the history, the resolver, the block list
  and the whitelist. The channels between them are lists in the state, and one step of any goroutine is a
  step of the relation \<open>botex_step\<close>.
\<close>

section \<open>Requests and workers\<close>

text \<open>
  \<open>HandleRequest\<close>: timestamps below \<open>1<<32\<close> are seconds, all others nanoseconds. The ASN is set after the
  request has been added to the history; the result carries the request as the plugins get it.
\<close>

definition request_time :: "int \<Rightarrow> time" where
  "request_time timestamp = (if timestamp < 2 ^ 32 then unix_sec timestamp else timestamp)"

definition handle_request :: "('m, 'n, 'db) env \<Rightarrow> whitelist \<Rightarrow> add_clock \<Rightarrow> request \<Rightarrow> ('m, 'n) history \<Rightarrow> 'db
    \<Rightarrow> panic + ('m, 'n) history \<times> 'db \<times> add_result" where
  "handle_request E wl ck r h db =
     (let r1 = r\<lparr>rq_time := request_time (rq_timestamp r)\<rparr>;
          ip = parse_ip (rq_source r1)
      in case history_add E wl ck r1 h db of
           Inl p \<Rightarrow> Inl p
         | Inr (h', db', res) \<Rightarrow>
             Inr (h', db', res\<lparr>ar_request := (ar_request res)\<lparr>rq_asn := en_asndb E ip\<rparr>\<rparr>))"

text \<open>
  \<open>blockWorker\<close>, one message: an address that is marked as blocked is skipped unless it is forced. The
  message takes the city of \<open>GeoIP\<close>, a dereference; the error of \<open>BlockIP\<close> is only logged. \<open>t1\<close> is
  \<open>BlockedAt\<close>, \<open>t2\<close> and \<open>t3\<close> are the times of the store calls.
\<close>

definition block_message_of :: "time \<Rightarrow> string \<Rightarrow> ip_details \<Rightarrow> ip_block_message" where
  "block_message_of now city d =
     \<lparr>st_total = id_total d, st_app = id_app d, st_other = id_other d, st_ratio = id_ratio d, st_ips = 0,
      st_asn = id_asn d, bm_reason = id_block_reason d, bm_city = Some city, bm_blocked_at = now,
      ibm_ip = id_ip d, ibm_hostname = id_hostname d\<rparr>"

definition block_worker :: "('m, 'n, 'db) env \<Rightarrow> block_json \<Rightarrow> block \<Rightarrow> time \<times> time \<times> time \<Rightarrow> nat \<Rightarrow> ('m, 'n) history
    \<Rightarrow> 'db \<Rightarrow> panic + ('m, 'n) history \<times> 'db \<times> ip_block_message option" where
  "block_worker E J b now a h db =
     (let d = hi_details h a
      in if id_is_blocked d \<and> \<not> id_force_block d then Inr (h, db, None)
         else case id_geoip d of
                None \<Rightarrow> Inl NilDereference
              | Some city \<Rightarrow>
                  let msg = block_message_of (fst now) city d;
                      db' = snd (block_ip (en_store E) J (bk_ttl b) (fst (snd now)) (snd (snd now)) msg db)
                  in Inr (hi_set_details a (d\<lparr>id_is_blocked := True\<rparr>) h, db', Some msg))"

text \<open>
  \<open>blockASNNetWorker\<close>: the statistics of the addresses to block with their network or autonomous system,
  then a forced update. \<open>now\<close> gives the clock readings for each address.
\<close>

definition forced_stats :: "ip_details \<Rightarrow> ip_stats" where
  "forced_stats d = stats.extend (details_stats d) \<lparr>is_ip = id_ip d, is_with_hostname = 0\<rparr>"

fun asn_net_candidates :: "('m, 'n, 'db) env \<Rightarrow> block_json \<Rightarrow> (string \<Rightarrow> time \<times> time) \<Rightarrow> 'db
    \<Rightarrow> (string \<times> ip_details) list \<Rightarrow> panic + ip_stats list" where
  "asn_net_candidates E J now db [] = Inr []"
| "asn_net_candidates E J now db ((ip, d) # rest) =
     (case is_blocked_by_asn (en_store E) J (fst (now ip)) (snd (now ip)) db (id_asn d) of
        Inl p \<Rightarrow> Inl p
      | Inr (blocked_by_asn, _) \<Rightarrow>
          (case asn_net_candidates E J now db rest of
             Inl p \<Rightarrow> Inl p
           | Inr sts \<Rightarrow>
               if \<not> id_force_block d \<and> (id_is_blocked d \<or> \<not> blocked_by_asn) then Inr sts
               else Inr (forced_stats d # sts)))"

definition asn_net_worker :: "('m, 'n, 'db) env \<Rightarrow> block_json \<Rightarrow> whitelist \<Rightarrow> (string \<Rightarrow> time \<times> time) \<Rightarrow> (nat \<Rightarrow> time \<times> time)
    \<Rightarrow> ('m, 'n) history \<Rightarrow> 'db \<Rightarrow> panic + ('m, 'n) history \<times> nat list \<times> nat list" where
  "asn_net_worker E J wl now upd h db =
     (case asn_net_candidates E J now db (history_each h) of
        Inl p \<Rightarrow> Inl p
      | Inr sts \<Rightarrow>
          history_update E wl True
            (map (\<lambda>i. (fst (upd i), snd (upd i), sts ! i)) [0..<length sts]) h)"

text \<open>\<open>resolvWorker\<close>, one message, \<open>None\<close> the nil pointer.\<close>

definition resolv_worker :: "ip_resolv option \<Rightarrow> ('m, 'n) history \<Rightarrow> ('m, 'n) history \<times> ip_stats option" where
  "resolv_worker rip h =
     (case rip of
        None \<Rightarrow> (h, None)
      | Some r \<Rightarrow> if rp_err r = [] then history_set_hostname (rp_ip r) (rp_host r) h else (h, None))"

section \<open>The system\<close>

text \<open>
  The state: the history, the store, the block list, the whitelist, the statistics on their way to
  \<open>update\<close>, the pointers on \<open>BlockChan\<close>, and the addresses handed to the resolver.
\<close>

record ('m, 'n, 'db) botex =
  bx_history :: "('m, 'n) history"
  bx_db :: 'db
  bx_block :: block
  bx_whitelist :: whitelist
  bx_updates :: "ip_stats list"
  bx_block_chan :: "nat list"
  bx_resolving :: "ip list"

definition opt_list :: "'a option \<Rightarrow> 'a list" where
  "opt_list x = (case x of None \<Rightarrow> [] | Some a \<Rightarrow> [a])"

inductive botex_step :: "('m, 'n, 'db) env \<Rightarrow> block_json \<Rightarrow> ('m, 'n, 'db) botex \<Rightarrow> ('m, 'n, 'db) botex \<Rightarrow> bool"
  for E :: "('m, 'n, 'db) env" and J :: block_json where
  request: "handle_request E (bx_whitelist s) ck r (bx_history s) (bx_db s) = Inr (h, db, res) \<Longrightarrow>
    botex_step E J s (s\<lparr>bx_history := h, bx_db := db, bx_updates := bx_updates s @ opt_list (ar_stats res)\<rparr>)"
| update: "bx_updates s = st # sts \<Longrightarrow>
    history_update E (bx_whitelist s) False [(now, now', st)] (bx_history s) = Inr (h, resolves, sends) \<Longrightarrow>
    botex_step E J s (s\<lparr>bx_history := h, bx_updates := sts, bx_block_chan := bx_block_chan s @ sends,
      bx_resolving := bx_resolving s @ map (\<lambda>a. id_ip (hi_details h a)) resolves\<rparr>)"
| block_ip: "bx_block_chan s = a # as \<Longrightarrow>
    block_worker E J (bx_block s) now a (bx_history s) (bx_db s) = Inr (h, db, msg) \<Longrightarrow>
    botex_step E J s (s\<lparr>bx_history := h, bx_db := db, bx_block_chan := as\<rparr>)"
| asn_net: "asn_net_worker E J (bx_whitelist s) now upd (bx_history s) (bx_db s) = Inr (h, resolves, sends) \<Longrightarrow>
    botex_step E J s (s\<lparr>bx_history := h, bx_block_chan := bx_block_chan s @ sends,
      bx_resolving := bx_resolving s @ map (\<lambda>a. id_ip (hi_details h a)) resolves\<rparr>)"
| resolved: "rp_ip rip \<in> set (bx_resolving s) \<Longrightarrow> resolv_worker (Some rip) (bx_history s) = (h, st) \<Longrightarrow>
    botex_step E J s (s\<lparr>bx_history := h, bx_updates := bx_updates s @ opt_list st\<rparr>)"
| expire: "history_expire E ck now (bx_history s) = (h, gone) \<Longrightarrow> botex_step E J s (s\<lparr>bx_history := h\<rparr>)"
| reload: "wl_reload compile file now (bx_whitelist s) = Inr (wl, recheck_wanted) \<Longrightarrow>
    botex_step E J s (s\<lparr>bx_whitelist := wl\<rparr>)"
| recheck: "recheck (en_store E) J (bx_whitelist s) now now' (bx_db s) = Inr db \<Longrightarrow>
    botex_step E J s (s\<lparr>bx_db := db\<rparr>)"
| block_network: "block_network (en_store E) J bck nmsg (bx_block s) (bx_db s) = Inr (err, b, db) \<Longrightarrow>
    botex_step E J s (s\<lparr>bx_block := b, bx_db := db\<rparr>)"
| block_asn: "block_asn (en_store E) J bck amsg (bx_block s) (bx_db s) = Inr (err, b, db) \<Longrightarrow>
    botex_step E J s (s\<lparr>bx_block := b, bx_db := db\<rparr>)"

section \<open>Marks on addresses\<close>

text \<open>
  What the operations of the history do to the details of an allocated address: its address stays, and
  once it is marked as blocked without force it stays so.
\<close>

definition settled :: "ip_details \<Rightarrow> bool" where
  "settled d \<longleftrightarrow> id_is_blocked d \<and> \<not> id_force_block d"

lemma ensure_ip_details:
  assumes "ensure_ip E wl now ip h = Inr (h', a, b)" and "c < length (hi_heap h)"
  shows "hi_heap h' ! c = hi_heap h ! c" and "length (hi_heap h) \<le> length (hi_heap h')"
  using assms by (auto simp: ensure_ip_def Let_def nth_append split: option.splits sum.splits)

lemma ipd_add_details:
  "ipd_details (fst (ipd_add T ck chan now r ipd)) = (ipd_details ipd)\<lparr>id_updated_at := now\<rparr>"
  by (simp add: ipd_add_def Let_def split: prod.splits)

lemma history_add_details:
  assumes "history_add E wl ck r h db = Inr (h', db', res)" and "c < length (hi_heap h)"
  shows "c < length (hi_heap h')" and "settled (hi_details h' c) = settled (hi_details h c)"
    and "id_ip (hi_details h' c) = id_ip (hi_details h c)"
proof -
  have "c < length (hi_heap h') \<and> settled (hi_details h' c) = settled (hi_details h c) \<and>
      id_ip (hi_details h' c) = id_ip (hi_details h c)"
  proof (cases "parse_ip (rq_source r) = []")
    case True
    with assms show ?thesis by (simp add: history_add_def)
  next
    case False
    obtain h1 a new_ip ipd where h1: "ensure_ip E wl (ac_new ck) (parse_ip (rq_source r)) h = Inr (h1, a, new_ip)"
      and ipd: "fst (ipd_add (en_windows E) (ac_requests ck) True (ac_add ck) r (hi_heap h1 ! a)) = ipd"
      and h': "hi_heap h' = (hi_heap h1)[a := ipd]"
      using history_add_cases [OF assms(1) False] .
    have "settled (hi_details h' c) = settled (hi_details h1 c) \<and> id_ip (hi_details h' c) = id_ip (hi_details h1 c)"
      by (simp add: hi_details_def h' nth_update_if ipd_add_details settled_def flip: ipd)
    moreover have "hi_details h1 c = hi_details h c"
      using ensure_ip_details(1) [OF h1 assms(2)] by (simp add: hi_details_def)
    ultimately show ?thesis using ensure_ip_details(2) [OF h1 assms(2)] assms(2) by (simp add: h')
  qed
  then show "c < length (hi_heap h')" and "settled (hi_details h' c) = settled (hi_details h c)"
    and "id_ip (hi_details h' c) = id_ip (hi_details h c)" by auto
qed

lemma ipd_update_settled:
  assumes "ipd_update cfg wl plugins now now' st False d = Inr (d', resolve, send)"
  shows "settled d' = settled d"
  using ipd_update_ip [OF assms] by (simp add: settled_def)

lemma history_update_other:
  "history_update E wl force ss h = Inr (h', resolves, sends) \<Longrightarrow>
     list_all (\<lambda>(now, now', st). hi_lookup h (ip_string (is_ip st)) \<noteq> Some c) ss \<Longrightarrow> hi_details h' c = hi_details h c"
proof (induction ss arbitrary: h resolves sends)
  case Nil
  then show ?case by simp
next
  case (Cons e ss)
  obtain now now' st where e: "e = (now, now', st)" by (cases e) auto
  show ?case
    using Cons.prems Cons.IH [of "hi_set_details a d h" for a d]
    by (auto simp: e split: option.splits if_splits sum.splits prod.splits)
qed

lemma history_update_heap:
  "history_update E wl force ss h = Inr (h', resolves, sends) \<Longrightarrow>
     hist_inv h \<Longrightarrow> length (hi_heap h') = length (hi_heap h) \<and> (\<forall>a \<in> set sends. a < length (hi_heap h))"
proof (induction ss arbitrary: h resolves sends)
  case Nil
  then show ?case by simp
next
  case (Cons e ss)
  obtain now now' st where e: "e = (now, now', st)" by (cases e) auto
  show ?case
  proof (cases "hi_lookup h (ip_string (is_ip st))")
    case None
    with Cons.prems show ?thesis by (simp add: e)
  next
    case (Some a)
    show ?thesis
    proof (cases "st_total st \<le> 0")
      case True
      with Some Cons.prems show ?thesis by (simp add: e)
    next
      case False
      with Some Cons.prems(1) obtain d res send rs sds where
        up: "ipd_update (en_config E) wl (en_plugins E) now now' st force (hi_details h a) = Inr (d, res, send)"
        and rest: "history_update E wl force ss (hi_set_details a d h) = Inr (h', rs, sds)"
        and sends: "sends = (if send then a # sds else sds)"
        by (auto simp: e split: sum.splits prod.splits)
      have "hist_inv (hi_set_details a d h)"
        using Cons.prems(2) ipd_update_ip [OF up] by (intro hist_inv_set_details) auto
      from Cons.IH [OF rest this] sends hist_inv_lookup(1) [OF Cons.prems(2) Some] show ?thesis by auto
    qed
  qed
qed

lemma history_update_settled:
  "history_update E wl False ss h = Inr (h', resolves, sends) \<Longrightarrow>
     settled (hi_details h' c) = settled (hi_details h c)"
proof (induction ss arbitrary: h resolves sends)
  case Nil
  then show ?case by simp
next
  case (Cons e ss)
  obtain now now' st where e: "e = (now, now', st)" by (cases e) auto
  show ?case
  proof (cases "hi_lookup h (ip_string (is_ip st))")
    case None
    with Cons.prems show ?thesis by (simp add: e)
  next
    case (Some a)
    show ?thesis
    proof (cases "st_total st \<le> 0")
      case True
      with Some Cons.prems show ?thesis by (simp add: e)
    next
      case False
      with Some Cons.prems(1) obtain d res send rs sds where
        up: "ipd_update (en_config E) wl (en_plugins E) now now' st False (hi_details h a) = Inr (d, res, send)"
        and rest: "history_update E wl False ss (hi_set_details a d h) = Inr (h', rs, sds)"
        by (auto simp: e split: sum.splits prod.splits)
      from Cons.IH [OF rest] ipd_update_settled [OF up] show ?thesis by simp
    qed
  qed
qed

lemma history_expire_loop_details:
  "hi_details (fst (history_expire_loop E ck rest h)) c = hi_details h c \<and>
     length (hi_heap (fst (history_expire_loop E ck rest h))) = length (hi_heap h)"
proof (induction rest arbitrary: h)
  case Nil
  then show ?case by simp
next
  case (Cons e rest)
  then show ?case
    by (cases e) (simp add: history_expire_loop_Cons Let_def hi_details_def nth_update_if del: history_expire_loop.simps)
qed

lemma history_expire_details:
  "hi_details (fst (history_expire E ck now h)) c = hi_details h c"
  "length (hi_heap (fst (history_expire E ck now h))) = length (hi_heap h)"
  using history_expire_loop_details [of E ck "hi_data h" "h\<lparr>hi_stats := sw_expire (en_slices E) now (hi_stats h)\<rparr>" c]
  by (simp_all add: history_expire_def Let_def hi_details_def)

lemma resolv_worker_details:
  assumes "resolv_worker rip h = (h', st)"
  shows "settled (hi_details h' c) = settled (hi_details h c)" and "length (hi_heap h') = length (hi_heap h)"
  using assms
  by (auto simp: resolv_worker_def history_set_hostname_def set_hostname_def settled_def split: option.splits if_splits)

lemma resolv_worker_inv: "resolv_worker rip h = (h', st) \<Longrightarrow> hist_inv h \<Longrightarrow> hist_inv h'"
  by (auto simp: resolv_worker_def split: option.splits if_splits intro: history_set_hostname_inv')

lemma forced_stats_ip [simp]: "is_ip (forced_stats d) = id_ip d"
  by (simp add: forced_stats_def details_stats_def stats.defs)

lemma asn_net_candidates_spec:
  "asn_net_candidates E J now db xs = Inr sts \<Longrightarrow> st \<in> set sts \<Longrightarrow>
     \<exists>k d. (k, d) \<in> set xs \<and> st = forced_stats d \<and> \<not> settled d"
proof (induction xs arbitrary: sts)
  case Nil
  then show ?case by simp
next
  case (Cons e xs)
  obtain k d where e: "e = (k, d)" by force
  show ?case
    using Cons.prems Cons.IH
    by (auto simp: e settled_def split: sum.splits prod.splits if_splits) (metis set_ConsD)+
qed

lemma asn_net_worker_settled:
  assumes run: "asn_net_worker E J wl now upd h db = Inr (h', resolves, sends)" and inv: "hist_inv h"
    and c: "settled (hi_details h c)"
  shows "hi_details h' c = hi_details h c"
proof -
  obtain sts where sts: "asn_net_candidates E J now db (history_each h) = Inr sts"
    and up: "history_update E wl True (map (\<lambda>i. (fst (upd i), snd (upd i), sts ! i)) [0..<length sts]) h = Inr (h', resolves, sends)"
    using run by (auto simp: asn_net_worker_def split: sum.splits)
  have other: "hi_lookup h (ip_string (is_ip st)) \<noteq> Some c" if mem: "st \<in> set sts" for st
  proof
    assume look: "hi_lookup h (ip_string (is_ip st)) = Some c"
    obtain k b where kb: "(k, b) \<in> set (hi_data h)" and st: "st = forced_stats (hi_details h b)" "\<not> settled (hi_details h b)"
      using asn_net_candidates_spec [OF sts mem] by (auto simp: history_each_def)
    have "k = ip_string (id_ip (hi_details h b))" and dist: "distinct (map fst (hi_data h))"
      using inv kb by (auto simp: hist_inv_def list_all_iff)
    then have "hi_lookup h (ip_string (is_ip st)) = Some b"
      using kb by (simp add: hi_lookup_def st(1))
    with look st(2) c show False by simp
  qed
  show ?thesis
    by (rule history_update_other [OF up]) (auto simp: list_all_iff intro!: other)
qed

section \<open>Invariants of the system\<close>

definition sys_inv :: "('m, 'n, 'db) botex \<Rightarrow> bool" where
  "sys_inv s \<longleftrightarrow> hist_inv (bx_history s) \<and> (\<forall>a \<in> set (bx_block_chan s). a < length (hi_heap (bx_history s)))"

lemma asn_net_worker_update:
  assumes "asn_net_worker E J wl now upd h db = Inr (h', resolves, sends)"
  obtains ss where "history_update E wl True ss h = Inr (h', resolves, sends)"
  using assms by (auto simp: asn_net_worker_def split: sum.splits)

lemma block_worker_cases:
  assumes "block_worker E J b now a h db = Inr (h', db', msg)"
  shows "h' = h \<and> settled (hi_details h a) \<or>
    h' = hi_set_details a ((hi_details h a)\<lparr>id_is_blocked := True\<rparr>) h \<and> \<not> settled (hi_details h a)"
  using assms by (auto simp: block_worker_def settled_def Let_def split: if_splits option.splits)

lemma handle_request_add:
  assumes "handle_request E wl ck r h db = Inr (h', db', res)"
  obtains r1 res1 where "history_add E wl ck r1 h db = Inr (h', db', res1)"
  using assms by (auto simp: handle_request_def Let_def split: sum.splits)

lemma history_add_heap:
  assumes "history_add E wl ck r h db = Inr (h', db', res)"
  shows "length (hi_heap h) \<le> length (hi_heap h')"
proof (cases "length (hi_heap h)")
  case 0
  then show ?thesis by simp
next
  case (Suc n)
  with history_add_details(1) [OF assms, of n] show ?thesis by simp
qed

lemma botex_step_inv: "botex_step E J s s' \<Longrightarrow> sys_inv s \<Longrightarrow> sys_inv s'"
proof (induction rule: botex_step.induct)
  case (request s ck r h db res)
  obtain r1 res1 where "history_add E (bx_whitelist s) ck r1 (bx_history s) (bx_db s) = Inr (h, db, res1)"
    using handle_request_add [OF request(1)] .
  from history_add_inv [OF _ this] history_add_heap [OF this] request(2) show ?case
    by (auto simp: sys_inv_def)
next
  case (update s st sts now now' h resolves sends)
  from history_update_inv [OF _ update(2)] history_update_heap [OF update(2)] update(3) show ?case
    by (auto simp: sys_inv_def)
next
  case (block_ip s a as now h db msg)
  have "hist_inv (hi_set_details a ((hi_details (bx_history s) a)\<lparr>id_is_blocked := True\<rparr>) (bx_history s))"
    using block_ip(3) by (intro hist_inv_set_details) (auto simp: sys_inv_def)
  with block_worker_cases [OF block_ip(2)] block_ip(1,3) show ?case by (auto simp: sys_inv_def)
next
  case (asn_net s now upd h resolves sends)
  obtain ss where "history_update E (bx_whitelist s) True ss (bx_history s) = Inr (h, resolves, sends)"
    using asn_net_worker_update [OF asn_net(1)] .
  from history_update_inv [OF _ this] history_update_heap [OF this] asn_net(2) show ?case
    by (auto simp: sys_inv_def)
next
  case (resolved rip s h st)
  from resolv_worker_inv [OF resolved(2)] resolv_worker_details(2) [OF resolved(2)] resolved(3) show ?case
    by (auto simp: sys_inv_def)
next
  case (expire ck now s h gone)
  from history_expire_inv [of "bx_history s" E ck now] history_expire_details(2) [of E ck now "bx_history s"] expire
  show ?case by (auto simp: sys_inv_def)
qed (auto simp: sys_inv_def)

lemma botex_step_settled:
  "botex_step E J s s' \<Longrightarrow> sys_inv s \<Longrightarrow> c < length (hi_heap (bx_history s)) \<Longrightarrow>
     settled (hi_details (bx_history s) c) \<Longrightarrow>
     settled (hi_details (bx_history s') c) \<and> c < length (hi_heap (bx_history s'))"
proof (induction rule: botex_step.induct)
  case (request s ck r h db res)
  obtain r1 res1 where "history_add E (bx_whitelist s) ck r1 (bx_history s) (bx_db s) = Inr (h, db, res1)"
    using handle_request_add [OF request(1)] .
  from history_add_details [OF this request(3)] request(4) show ?case by simp
next
  case (update s st sts now now' h resolves sends)
  from history_update_settled [OF update(2)] history_update_heap [OF update(2)] update show ?case
    by (auto simp: sys_inv_def)
next
  case (block_ip s a as now h db msg)
  from block_worker_cases [OF block_ip(2)] block_ip show ?case by (auto simp: settled_def split: if_splits)
next
  case (asn_net s now upd h resolves sends)
  obtain ss where "history_update E (bx_whitelist s) True ss (bx_history s) = Inr (h, resolves, sends)"
    using asn_net_worker_update [OF asn_net(1)] .
  from history_update_heap [OF this] asn_net_worker_settled [OF asn_net(1)] asn_net show ?case
    by (auto simp: sys_inv_def)
next
  case (resolved rip s h st)
  from resolv_worker_details [OF resolved(2)] resolved show ?case by simp
next
  case (expire ck now s h gone)
  have "hi_details h c = hi_details (bx_history s) c" and "length (hi_heap h) = length (hi_heap (bx_history s))"
    using history_expire_details [of E ck now "bx_history s"] by (simp_all add: expire(1))
  then show ?case using expire(3,4) by simp
qed simp_all

section \<open>Progress of the block worker\<close>

lemma block_worker_runs:
  assumes "a < length (hi_heap h)" and "id_geoip (hi_details h a) \<noteq> None"
  shows "\<exists>d db' msg. block_worker E J b now a h db = Inr (hi_set_details a d h, db', msg) \<and>
    id_is_blocked d \<and> id_ip d = id_ip (hi_details h a) \<and> id_geoip d = id_geoip (hi_details h a)"
proof (cases "id_is_blocked (hi_details h a) \<and> \<not> id_force_block (hi_details h a)")
  case True
  have "hi_set_details a (hi_details h a) h = h" by (simp add: hi_set_details_def hi_details_def)
  with True show ?thesis
    by (intro exI [of _ "hi_details h a"] exI [of _ db] exI [of _ None]) (simp add: block_worker_def Let_def)
next
  case False
  with assms(2) show ?thesis by (auto simp: block_worker_def Let_def intro!: exI)
qed

lemma block_chan_runs:
  assumes "sys_inv s" and "bx_block_chan s = as" and "\<forall>a \<in> set as. id_geoip (hi_details (bx_history s) a) \<noteq> None"
    and "\<forall>a \<in> M. id_is_blocked (hi_details (bx_history s) a)"
  shows "\<exists>s'. (botex_step E J)\<^sup>*\<^sup>* s s' \<and> bx_block_chan s' = [] \<and>
    (\<forall>a \<in> M \<union> set as. id_is_blocked (hi_details (bx_history s') a))"
  using assms
proof (induction as arbitrary: s M)
  case Nil
  then show ?case by auto
next
  case (Cons a as)
  have a: "a < length (hi_heap (bx_history s))" using Cons.prems(1,2) by (simp add: sys_inv_def)
  obtain d db' msg where w: "block_worker E J (bx_block s) (0, 0, 0) a (bx_history s) (bx_db s) =
      Inr (hi_set_details a d (bx_history s), db', msg)"
    and d: "id_is_blocked d" "id_geoip d = id_geoip (hi_details (bx_history s) a)"
    using block_worker_runs [OF a] Cons.prems(3) by (metis list.set_intros(1))
  let ?s = "s\<lparr>bx_history := hi_set_details a d (bx_history s), bx_db := db', bx_block_chan := as\<rparr>"
  have step: "botex_step E J s ?s" using Cons.prems(2) w by (rule botex_step.block_ip)
  have det: "hi_details (bx_history ?s) b = (if b = a then d else hi_details (bx_history s) b)" for b
    using a by simp
  have "\<exists>s'. (botex_step E J)\<^sup>*\<^sup>* ?s s' \<and> bx_block_chan s' = [] \<and>
      (\<forall>b \<in> insert a M \<union> set as. id_is_blocked (hi_details (bx_history s') b))"
    using Cons.prems(3,4) d by (intro Cons.IH botex_step_inv [OF step Cons.prems(1)]) (auto simp: det a)
  then obtain s' where "(botex_step E J)\<^sup>*\<^sup>* ?s s'" "bx_block_chan s' = []"
    "\<forall>b \<in> insert a M \<union> set as. id_is_blocked (hi_details (bx_history s') b)" by blast
  with converse_rtranclp_into_rtranclp [of "botex_step E J", OF step] show ?case by (intro exI [of _ s']) auto
qed

section \<open>What the block worker writes\<close>

lemma block_worker_stores:
  assumes "kvstore (en_store E) content" and "block_codec J ip_ok asn_ok network_ok"
    and "block_worker E J b (t1, t2, t3) a h db = Inr (h', db', Some msg)" and "ip_ok msg"
    and "id_ip (hi_details h a) \<noteq> []"
    and "\<And>v. \<not> isl (kv_setex (en_store E) db t3 (ip_namespace (id_ip (hi_details h a))) v (bk_ttl b))"
    and "answers (en_store E) db t2 (ip_namespace (id_ip (hi_details h a)))"
    and "content db t2 (ip_namespace (id_ip (hi_details h a))) = None"
    and "t3 \<le> t" and "t + second \<le> t3 + bk_ttl b"
    and "answers (en_store E) db' t (ip_namespace (id_ip (hi_details h a)))"
  shows "\<not> isl (get_ip (en_store E) J t db' (id_ip (hi_details h a)))"
    and "h' = hi_set_details a ((hi_details h a)\<lparr>id_is_blocked := True\<rparr>) h"
proof -
  let ?d = "hi_details h a" and ?key = "ip_namespace (id_ip (hi_details h a))"
  obtain city where msg: "msg = block_message_of t1 city ?d"
    and db': "db' = snd (block_ip (en_store E) J (bk_ttl b) t2 t3 msg db)"
    and h': "h' = hi_set_details a (?d\<lparr>id_is_blocked := True\<rparr>) h"
    using assms(3) by (auto simp: block_worker_def Let_def split: if_splits option.splits)
  have ip: "ibm_ip msg = id_ip ?d" by (simp add: msg block_message_of_def)
  have get: "kv_get (en_store E) db t2 ?key = Inl NotFound"
    using kvstore.get_answers [OF assms(1,7)] assms(8) by simp
  obtain s where s: "js_marshal (bj_ip J) msg = Inr s"
    using json_codec.marshal_Inr [OF block_codec.ip_codec [OF assms(2)] assms(4)] by blast
  obtain db2 where "kv_setex (en_store E) db t3 ?key s (bk_ttl b) = Inr db2"
    using assms(6) [of s] by (cases "kv_setex (en_store E) db t3 ?key s (bk_ttl b)") auto
  then have run: "block_ip (en_store E) J (bk_ttl b) t2 t3 msg db = (None, db')"
    using get s assms(5) by (simp add: block_ip_def write_once_def ip db')
  show "\<not> isl (get_ip (en_store E) J t db' (id_ip ?d))"
    using block_ip_stored [OF assms(1,2,4) run _ assms(9,10)] assms(8,11) by (simp add: ip)
  show "h' = hi_set_details a (?d\<lparr>id_is_blocked := True\<rparr>) h" by (rule h')
qed

section \<open>Properties\<close>

text \<open>
  C18: In every state the system reaches, each entry of the history is found under the printed form of its
  own address, entries are not shared, and every pointer on the way to the block worker is valid.
\<close>

theorem reachable_inv:
  assumes "new_history E = Inr h" and "bx_history s = h" and "bx_block_chan s = []" and "(botex_step E J)\<^sup>*\<^sup>* s s'"
  shows "sys_inv s'"
  using assms(4)
proof (induction rule: rtranclp_induct)
  case base
  then show ?case using new_history_inv [OF assms(1)] assms(2,3) by (simp add: sys_inv_def)
next
  case (step y z)
  then show ?case using botex_step_inv by blast
qed


text \<open>
  C4: The block worker blocks what it marks: after a step for an address that is not marked and not in the
  store, the address is marked, and blocked from then on until one second before the time to live ends.
\<close>

theorem block_worker_blocks:
  assumes "kvstore (en_store E) content" and "block_codec J ip_ok asn_ok network_ok"
    and "block_worker E J b (t1, t2, t3) a h db = Inr (h', db', Some msg)" and "ip_ok msg"
    and "a < length (hi_heap h)" and "id_ip (hi_details h a) \<noteq> []"
    and "\<And>v. \<not> isl (kv_setex (en_store E) db t3 (ip_namespace (id_ip (hi_details h a))) v (bk_ttl b))"
    and "answers (en_store E) db t2 (ip_namespace (id_ip (hi_details h a)))"
    and "content db t2 (ip_namespace (id_ip (hi_details h a))) = None"
    and "t3 \<le> t" and "t + second \<le> t3 + bk_ttl b"
    and "answers (en_store E) db' t (ip_namespace (id_ip (hi_details h a)))"
  shows "id_is_blocked (hi_details h' a) \<and>
    is_blocked (en_store E) J t t' t'' db' (id_ip (hi_details h a)) asn = Inr True"
proof -
  note stored = block_worker_stores [OF assms(1-4) assms(6) assms(7) assms(8-12)]
  show ?thesis using is_blocked_ip [OF stored(1)] assms(5) by (simp add: stored(2))
qed

text \<open>
  Timestamps: a number of seconds since 1970 below \<open>2 ^ 32\<close> and the same instant in nanoseconds are read
  as the same time, from the fifth second of 1970 on.
\<close>

theorem request_time_units:
  assumes "5 \<le> sec" and "sec < 2 ^ 32"
  shows "request_time sec = request_time (sec * 1000000000)"
  using assms by (simp add: request_time_def unix_sec_def)


section \<open>Witnesses\<close>

definition wit_block :: block where
  "wit_block = \<lparr>bk_network_cache = {}, bk_asn_cache = {}, bk_ttl = 60 * second\<rparr>"

definition wit_state :: "((int, int) RBT.rbt, (time, stat) RBT.rbt) history \<Rightarrow>
    ((int, int) RBT.rbt, (time, stat) RBT.rbt, memdb) botex" where
  "wit_state h = \<lparr>bx_history = h, bx_db = RBT.empty, bx_block = wit_block, bx_whitelist = new_whitelist,
     bx_updates = [], bx_block_chan = [], bx_resolving = []\<rparr>"

lemma wit_new_history: "new_history wit_env = Inr wit_h0"
  by (simp add: new_history_def wit_env_def wit_cfg_def wit_h0_def)

lemma wit_request_step: "\<exists>s'. botex_step wit_env num_block_json (wit_state wit_h0) s'"
proof -
  have "wit_request\<lparr>rq_time := request_time (rq_timestamp wit_request)\<rparr> = wit_request"
    by (simp add: wit_request_def request_time_def unix_sec_def second_def)
  then obtain h db res where
    "handle_request wit_env (bx_whitelist (wit_state wit_h0)) wit_add_clock wit_request
       (bx_history (wit_state wit_h0)) (bx_db (wit_state wit_h0)) = Inr (h, db, res)"
    using wit_history_add by (auto simp: handle_request_def Let_def wit_state_def)
  then show ?thesis by (blast intro: botex_step.request)
qed

lemma reachable_inv_witness:
  "\<exists>s'. botex_step wit_env num_block_json (wit_state wit_h0) s' \<and> sys_inv s'"
proof -
  obtain s' where step: "botex_step wit_env num_block_json (wit_state wit_h0) s'"
    using wit_request_step by blast
  have "sys_inv s'"
    by (rule reachable_inv [OF wit_new_history _ _ r_into_rtranclp [where r = "botex_step wit_env num_block_json", OF step]])
      (simp_all add: wit_state_def)
  with step show ?thesis by blast
qed

definition wit_settled :: "((int, int) RBT.rbt, (time, stat) RBT.rbt) history" where
  "wit_settled = hi_set_details 0 (wit_blocked\<lparr>id_is_blocked := True\<rparr>) wit_h1"

lemma wit_blocked_fields: "id_ip wit_blocked = v4_prefix @ [10, 1, 2, 3]" "\<not> id_force_block wit_blocked"
  by (simp_all add: wit_blocked_def wit_defs set_stats_def)

lemma wit_h1_heap: "length (hi_heap wit_h1) = 1"
  by (simp add: wit_h1_def)

lemma wit_settled_inv: "hist_inv wit_settled"
proof -
  have "hist_inv wit_h1"
    by (simp add: hist_inv_def wit_h1_def hi_details_def wit_details_def new_details_def wit_addr_string)
  then show ?thesis
    unfolding wit_settled_def
    by (rule hist_inv_set_details) (simp add: wit_h1_details wit_blocked_fields wit_details_def new_details_def)
qed


definition wit_worker_msg :: ip_block_message where
  "wit_worker_msg = block_message_of (5 * second) ''Wien'' (wit_details ''bot.example.org'' 301)"

lemma wit_d_fields:
  "id_ip (wit_details h a) = v4_prefix @ [10, 1, 2, 3]" "id_is_blocked (wit_details h a) = False"
  "id_geoip (wit_details h a) = Some ''Wien''" "id_force_block (wit_details h a) = False"
  by (simp_all add: wit_defs)

lemma wit_env_store: "en_store wit_env = mem_kv"
  by (simp add: wit_env_def)

lemma wit_worker:
  "block_worker wit_env num_block_json wit_block (5 * second, 5 * second, 5 * second) 0 wit_h1 RBT.empty =
     Inr (hi_set_details 0 ((wit_details ''bot.example.org'' 301)\<lparr>id_is_blocked := True\<rparr>) wit_h1,
       snd (block_ip mem_kv num_block_json (60 * second) (5 * second) (5 * second) wit_worker_msg RBT.empty),
       Some wit_worker_msg)"
  by (simp add: block_worker_def wit_h1_details wit_d_fields Let_def wit_worker_msg_def wit_env_store wit_block_def)

lemma block_worker_blocks_witness:
  "is_blocked mem_kv num_block_json (64 * second) 0 0
     (snd (block_ip mem_kv num_block_json (60 * second) (5 * second) (5 * second) wit_worker_msg RBT.empty))
     (v4_prefix @ [10, 1, 2, 3]) None = Inr True"
  using block_worker_blocks [OF mem_kvstore [folded wit_env_store] num_block.block_codec_axioms wit_worker TrueI,
      of "64 * second" 0 0 None]
  by (simp add: wit_h1_heap wit_h1_details wit_d_fields wit_env_store mem_simps mem_answers wit_block_def second_def)

lemma request_time_units_witness: "request_time 1600000000 = request_time (1600000000 * 1000000000)"
  by (rule request_time_units) simp_all


end
