(* ===== verification/Api.thy ===== *)
theory Api
  imports Botex
begin

text \<open>
  \<^verbatim>\<open>api.go\<close>: the HTTP interface. A handler gives the status and the value it writes as JSON, or panics (gin
  recovers from a panic of a handler and answers 500). \<open>sort.Slice\<close>, which promises a sorted permutation and
  no more, and the order of a loop over a Go map are parameters with their contracts. The last section is the
  web socket: the pool of connections, their handlers, and the goroutine that writes to them.
\<close>

section \<open>Replies, sorting and map iteration\<close>

datatype 'a reply = JSON 'a | Abort nat

type_synonym 'a sorter = "('a \<Rightarrow> 'a \<Rightarrow> bool) \<Rightarrow> 'a list \<Rightarrow> 'a list"

text \<open>The contract of \<open>sort.Slice\<close> for the orders the handlers use: descending in an integer key.\<close>

locale slice_sort =
  fixes srt :: "'a sorter"
  assumes sort_mset: "mset (srt lt xs) = mset xs"
    and sort_descending: "sorted_wrt (\<lambda>a b. (key a :: int) \<ge> key b) (srt (\<lambda>a b. key a > key b) xs)"
begin

lemma sort_set: "set (srt lt xs) = set xs"
  using arg_cong [OF sort_mset, of set_mset lt xs] by simp

lemma sort_descending_by:
  assumes "\<And>a b. lt a b \<longleftrightarrow> (key a :: int) > key b"
  shows "sorted_wrt (\<lambda>a b. key a \<ge> key b) (srt lt xs)"
proof -
  have "lt = (\<lambda>a b. key a > key b)" using assms by (intro ext) blast
  then show ?thesis using sort_descending by simp
qed

end

text \<open>Insertion sort, which Go itself uses on short slices.\<close>

fun sort_insert :: "('a \<Rightarrow> 'a \<Rightarrow> bool) \<Rightarrow> 'a \<Rightarrow> 'a list \<Rightarrow> 'a list" where
  "sort_insert lt x [] = [x]"
| "sort_insert lt x (y # ys) = (if lt y x then y # sort_insert lt x ys else x # y # ys)"

definition insertion_sort :: "'a sorter" where
  "insertion_sort lt xs = foldr (sort_insert lt) xs []"

lemma mset_sort_insert: "mset (sort_insert lt x ys) = add_mset x (mset ys)"
  by (induction ys) auto

lemma set_sort_insert: "set (sort_insert lt x ys) = insert x (set ys)"
  by (induction ys) auto

lemma sorted_sort_insert:
  "sorted_wrt (\<lambda>a b. (key a :: int) \<ge> key b) ys \<Longrightarrow>
   sorted_wrt (\<lambda>a b. key a \<ge> key b) (sort_insert (\<lambda>a b. key a > key b) x ys)"
  by (induction ys) (force simp: set_sort_insert)+

interpretation insertion: slice_sort insertion_sort
proof
  show "mset (insertion_sort lt xs) = mset xs" for lt and xs :: "'a list"
    by (induction xs) (simp_all add: insertion_sort_def mset_sort_insert)
  show "sorted_wrt (\<lambda>a b. key b \<le> key a) (insertion_sort (\<lambda>a b. key b < key a) xs)"
    for key :: "'a \<Rightarrow> int" and xs
    by (induction xs) (simp_all add: insertion_sort_def sorted_sort_insert)
qed

text \<open>The order in which \<open>range\<close> yields the entries of a map from integers.\<close>

locale map_range =
  fixes rng :: "(int \<rightharpoonup> int) \<Rightarrow> (int \<times> int) list"
  assumes range_distinct: "finite (dom m) \<Longrightarrow> distinct (map fst (rng m))"
    and range_map: "finite (dom m) \<Longrightarrow> map_of (rng m) = m"
begin

lemma range_keys: "finite (dom m) \<Longrightarrow> set (map fst (rng m)) = dom m"
  using range_map [of m] dom_map_of_fst [of "rng m"] by simp

lemma range_sum:
  assumes "finite (dom m)"
  shows "sum_list (map snd (filter (\<lambda>e. P (fst e)) (rng m))) = (\<Sum>ts \<in> {ts \<in> dom m. P ts}. the (m ts))"
proof -
  note d = range_distinct [OF assms] and m = range_map [OF assms]
  have "map snd (filter (\<lambda>e. P (fst e)) (rng m)) = map (\<lambda>k. the (m k)) (filter P (map fst (rng m)))"
    unfolding filter_map using map_of_is_SomeI [OF d] by (auto simp: m comp_def)
  then show ?thesis
    using sum_list_distinct_conv_sum_set [OF distinct_filter [OF d], of "\<lambda>k. the (m k)" P]
    by (simp only: set_filter range_keys [OF assms])
qed

end

definition sorted_range :: "(int \<rightharpoonup> int) \<Rightarrow> (int \<times> int) list" where
  "sorted_range m = map (\<lambda>k. (k, the (m k))) (sorted_list_of_set (dom m))"

interpretation sorted_rng: map_range sorted_range
proof
  fix m :: "int \<rightharpoonup> int"
  assume fin: "finite (dom m)"
  have keys: "map fst (sorted_range m) = sorted_list_of_set (dom m)"
    by (simp add: sorted_range_def comp_def)
  show "distinct (map fst (sorted_range m))" by (simp add: keys)
  show "map_of (sorted_range m) = m"
    unfolding sorted_range_def by (rule ext) (use fin in \<open>auto simp: map_of_map_restrict restrict_map_def dom_def\<close>)
qed

section \<open>Blocked addresses and the history\<close>

text \<open>
  \<open>getBlockedIPs\<close>: the stored messages with the present counts of their addresses. \<open>decode\<close> is
  \<open>json.Unmarshal\<close> into an empty message: what is in the message afterwards and the error. An undecodable
  entry is logged and listed all the same.
\<close>

definition overlay_totals :: "('m, 'n) history \<Rightarrow> ip_block_message \<Rightarrow> ip_block_message" where
  "overlay_totals h msg =
     (case history_ip_data h (ibm_ip msg) of
        None \<Rightarrow> msg
      | Some ipd \<Rightarrow>
          let d = ipd_details ipd
          in msg\<lparr>st_total := id_total d, st_app := id_app d, st_other := id_other d, st_ratio := id_ratio d\<rparr>)"

definition get_blocked_ips :: "ip_block_message sorter \<Rightarrow> 'db kvstore_api
    \<Rightarrow> (string \<Rightarrow> ip_block_message \<times> store_error option) \<Rightarrow> time \<Rightarrow> string \<Rightarrow> ('m, 'n) history \<Rightarrow> 'db
    \<Rightarrow> ip_block_message list reply" where
  "get_blocked_ips srt K decode now sort_by h db =
     (case kv_each K db now (ip_namespace []) of
        (_, Some err) \<Rightarrow> Abort 500
      | (vs, None) \<Rightarrow>
          let blocked = foldl (\<lambda>blocked v. blocked @ [overlay_totals h (fst (decode v))]) [] vs
          in JSON (if sort_by = ''total'' then srt (\<lambda>a b. st_total a > st_total b) blocked
                   else srt (\<lambda>a b. unix_nano (bm_blocked_at a) > unix_nano (bm_blocked_at b)) blocked))"

text \<open>\<open>getIPs\<close>: the callback of \<open>Each\<close>, which reads the number of an address's ASN through its pointer.\<close>

fun ips_loop :: "int \<Rightarrow> ipnet option \<Rightarrow> (string \<times> ip_details) list \<Rightarrow> ip_details list \<Rightarrow> panic + ip_details list" where
  "ips_loop asn_filter network_filter [] ips = Inr ips"
| "ips_loop asn_filter network_filter ((_, d) # rest) ips =
     (if asn_filter > 0 \<and> id_asn d = None then Inl NilDereference
      else if asn_filter > 0 \<and> asn_number (the (id_asn d)) \<noteq> asn_filter then ips_loop asn_filter network_filter rest ips
      else case network_filter of
             None \<Rightarrow> ips_loop asn_filter network_filter rest (ips @ [d])
           | Some n \<Rightarrow> if \<not> ipnet_contains n (id_ip d) then ips_loop asn_filter network_filter rest ips
                      else ips_loop asn_filter network_filter rest (ips @ [d]))"

definition query_asn :: "string \<Rightarrow> int" where
  "query_asn by_asn = (if by_asn = [] then 0 else case parse_int64 by_asn of None \<Rightarrow> 0 | Some asn \<Rightarrow> asn)"

definition query_network :: "string \<Rightarrow> ipnet option" where
  "query_network by_network = (if by_network = [] then None else parse_cidr by_network)"

definition get_ips :: "ip_details sorter \<Rightarrow> string \<Rightarrow> string \<Rightarrow> string \<Rightarrow> ('m, 'n) history
    \<Rightarrow> panic + ip_details list reply" where
  "get_ips srt sort_by by_asn by_network h =
     (case ips_loop (query_asn by_asn) (query_network by_network) (history_each h) [] of
        Inl p \<Rightarrow> Inl p
      | Inr ips \<Rightarrow>
          Inr (JSON (if sort_by = ''total'' then srt (\<lambda>a b. id_total a > id_total b) ips
                     else srt (\<lambda>a b. unix_nano (id_created_at a) > unix_nano (id_created_at b)) ips)))"

definition get_ip_reply :: "(int, int, 'm) treemap_api \<Rightarrow> string \<Rightarrow> ('m, 'n) history
    \<Rightarrow> (ip_details \<times> request option list \<times> (string \<rightharpoonup> int)) reply" where
  "get_ip_reply T ip h =
     (case history_ip_data h (parse_ip ip) of
        None \<Rightarrow> Abort 404
      | Some ipd \<Rightarrow>
          JSON (ipd_details ipd, requests_latest (ipd_requests ipd), requests_useragents T (ipd_requests ipd)))"

definition get_stats :: "(time, stat, 'n) treemap_api \<Rightarrow> (time \<Rightarrow> string) \<Rightarrow> ('m, 'n) history
    \<Rightarrow> (string \<rightharpoonup> stat) reply" where
  "get_stats T fmt h = JSON (sw_all T fmt (hi_stats h))"

section \<open>Request statistics\<close>

record request_window =
  rqw_time :: time
  rqw_count :: int

text \<open>The loop that finds the first and the last slice; 0 stands for not yet set.\<close>

definition ts_bounds :: "int list \<Rightarrow> int \<times> int" where
  "ts_bounds keys =
     foldl (\<lambda>(ts_min, ts_max) ts. (if ts_min = 0 \<or> ts_min > ts then ts else ts_min,
                                  if ts_max = 0 \<or> ts_max < ts then ts else ts_max)) (0, 0) keys"

definition stats_window_size :: "int \<Rightarrow> int list \<Rightarrow> duration" where
  "stats_window_size n keys =
     (let (ts_min, ts_max) = ts_bounds keys;
          window_size = i64 (i64 (ts_max - ts_min) sdiv n)
      in if window_size \<le> 0 then second else window_size)"

definition empty_windows :: "time \<Rightarrow> duration \<Rightarrow> nat \<Rightarrow> request_window list" where
  "empty_windows now window_size n =
     foldl (\<lambda>stats i. stats[n - 1 - i :=
              \<lparr>rqw_time = time_truncate (now + i64 (- 1 * int i * window_size)) window_size, rqw_count = 0\<rparr>])
       (replicate n \<lparr>rqw_time = zero_time, rqw_count = 0\<rparr>) [0..<n]"

definition window_index :: "time \<Rightarrow> duration \<Rightarrow> int \<Rightarrow> int \<Rightarrow> int" where
  "window_index now window_size n ts =
     (let idx = i64 (time_sub now ts sdiv window_size) in if idx \<ge> n then n - 1 else idx)"

fun count_windows :: "time \<Rightarrow> duration \<Rightarrow> int \<Rightarrow> (int \<times> int) list \<Rightarrow> request_window list
    \<Rightarrow> panic + request_window list" where
  "count_windows now window_size n [] stats = Inr stats"
| "count_windows now window_size n ((ts, c) # rest) stats =
     (let idx = window_index now window_size n ts
      in if idx < 0 \<or> idx \<ge> int (length stats) then Inl IndexOutOfRange
         else count_windows now window_size n rest
                (stats[nat idx := (stats ! nat idx)\<lparr>rqw_count := i64 (rqw_count (stats ! nat idx) + c)\<rparr>]))"

text \<open>The division panics for no windows at all, and \<open>make\<close> for a negative number of them.\<close>

definition request_windows :: "((int \<rightharpoonup> int) \<Rightarrow> (int \<times> int) list) \<Rightarrow> time \<Rightarrow> int \<Rightarrow> (int \<rightharpoonup> int)
    \<Rightarrow> panic + request_window list" where
  "request_windows rng now n req_stats =
     (if n = 0 then Inl DivideByZero
      else if n < 0 then Inl (InvalidInput ''makeslice: len out of range'')
      else let window_size = stats_window_size n (map fst (rng req_stats))
           in count_windows now window_size n (rng req_stats) (empty_windows now window_size (nat n)))"

definition get_request_stats :: "(int, int, 'm) treemap_api \<Rightarrow> ((int \<rightharpoonup> int) \<Rightarrow> (int \<times> int) list) \<Rightarrow> time
    \<Rightarrow> string \<Rightarrow> string \<Rightarrow> string \<Rightarrow> ('m, 'n) history \<Rightarrow> panic + request_window list reply" where
  "get_request_stats T rng now windows ip stats_type h =
     (case parse_int64 windows of
        None \<Rightarrow> Inr (Abort 406)
      | Some num_windows \<Rightarrow>
          (case history_ip_data h (parse_ip ip) of
             None \<Rightarrow> Inr (Abort 404)
           | Some ipd \<Rightarrow>
               let req_stats = (if (if stats_type = [] then ''all'' else stats_type) = ''app''
                                then requests_app_stats T (ipd_requests ipd)
                                else requests_total_stats T (ipd_requests ipd))
               in case request_windows rng now num_windows req_stats of
                    Inl p \<Rightarrow> Inl p | Inr stats \<Rightarrow> Inr (JSON stats)))"

section \<open>What the statistics say\<close>

lemma ts_bounds_from:
  assumes "0 < (lo :: int)" and "0 < (hi :: int)" and "\<forall>k \<in> set ks. 0 < k"
  shows "foldl (\<lambda>(ts_min, ts_max) ts. (if ts_min = 0 \<or> ts_min > ts then ts else ts_min,
           if ts_max = 0 \<or> ts_max < ts then ts else ts_max)) (lo, hi) ks = (fold min ks lo, fold max ks hi)"
  using assms
proof (induction ks arbitrary: lo hi)
  case (Cons k ks)
  then have "(if lo = 0 \<or> lo > k then k else lo) = min k lo" "(if hi = 0 \<or> hi < k then k else hi) = max k hi"
    using Cons.prems by (auto simp: min_def max_def)
  then show ?case using Cons.prems Cons.IH [of "min k lo" "max k hi"]
    by (simp only: foldl.simps prod.case fold_Cons comp_apply) simp
qed simp

lemma ts_bounds_eq:
  assumes "ks \<noteq> []" and "\<forall>k \<in> set ks. 0 < k"
  shows "ts_bounds ks = (Min (set ks), Max (set ks))"
proof -
  obtain k ks' where ks: "ks = k # ks'" using assms(1) by (cases ks) auto
  show ?thesis using assms(2) ts_bounds_from [of k k ks']
    unfolding ks by (simp only: ts_bounds_def foldl.simps Min.set_eq_fold Max.set_eq_fold) simp
qed

lemma stats_window_size_pos: "0 < stats_window_size n keys"
  by (simp add: stats_window_size_def second_def Let_def split: prod.split)

lemma empty_windows_eq:
  "empty_windows now ws n = map (\<lambda>j. \<lparr>rqw_time = time_truncate (now + i64 (- 1 * int (n - 1 - j) * ws)) ws,
     rqw_count = 0\<rparr>) [0..<n]"
proof -
  let ?W = "\<lambda>i :: nat. \<lparr>rqw_time = time_truncate (now + i64 (- 1 * int i * ws)) ws, rqw_count = 0\<rparr>"
  let ?z = "\<lparr>rqw_time = zero_time, rqw_count = 0\<rparr>"
  have "foldl (\<lambda>stats i. stats[n - 1 - i := ?W i]) (replicate n ?z) [0..<m] =
      map (\<lambda>j. if n - 1 - j < m then ?W (n - 1 - j) else ?z) [0..<n]" if "m \<le> n" for m
    using that
  proof (induction m)
    case 0
    show ?case by (simp add: map_replicate_const)
  next
    case (Suc m)
    then show ?case by (auto intro!: nth_equalityI simp: nth_list_update less_Suc_eq)
  qed
  note this [of n]
  moreover have "map (\<lambda>j. if n - 1 - j < n then ?W (n - 1 - j) else ?z) [0..<n] = map (\<lambda>j. ?W (n - 1 - j)) [0..<n]"
    by (rule map_cong) auto
  ultimately show ?thesis by (simp only: empty_windows_def)
qed

lemma count_windows_panics:
  "isl (count_windows now ws n es stats) \<longleftrightarrow>
     (\<exists>ts \<in> set (map fst es). window_index now ws n ts < 0 \<or> window_index now ws n ts \<ge> int (length stats))"
proof (induction es arbitrary: stats)
  case (Cons e es)
  show ?case
    by (cases e) (simp add: Cons.IH Let_def)
qed simp

lemma count_windows_ok:
  assumes "\<forall>ts \<in> set (map fst es). 0 \<le> window_index now ws n ts \<and> window_index now ws n ts < int (length stats)"
    and "\<forall>w \<in> set stats. in64 (rqw_count w)"
  shows "count_windows now ws n es stats = Inr (map (\<lambda>j. (stats ! j)\<lparr>rqw_count :=
      i64 (rqw_count (stats ! j) + sum_list (map snd (filter (\<lambda>e. window_index now ws n (fst e) = int j) es)))\<rparr>)
      [0..<length stats])"
  using assms
proof (induction es arbitrary: stats)
  case Nil
  then show ?case by (auto intro!: nth_equalityI simp: i64_id)
next
  case (Cons e es)
  obtain ts c where e: "e = (ts, c)" by (cases e)
  let ?i = "nat (window_index now ws n ts)"
  let ?stats = "stats[?i := (stats ! ?i)\<lparr>rqw_count := i64 (rqw_count (stats ! ?i) + c)\<rparr>]"
  have idx: "0 \<le> window_index now ws n ts" "window_index now ws n ts < int (length stats)"
    using Cons.prems(1) by (simp_all add: e)
  then have "count_windows now ws n (e # es) stats = count_windows now ws n es ?stats"
    by (simp add: e Let_def)
  also have "\<dots> = Inr (map (\<lambda>j. (?stats ! j)\<lparr>rqw_count :=
      i64 (rqw_count (?stats ! j) + sum_list (map snd (filter (\<lambda>e. window_index now ws n (fst e) = int j) es)))\<rparr>)
      [0..<length ?stats])"
    using Cons.prems by (intro Cons.IH) (auto simp: e dest!: set_update_subset_insert [THEN subsetD])
  finally show ?case
    using idx by (auto intro!: nth_equalityI simp: e nth_list_update algebra_simps)
qed

lemma window_index_age:
  assumes "0 < ws" and "0 < n" and "0 < ts" and "ts \<le> now" and "now < 2 ^ 63"
  shows "window_index now ws n ts = min (n - 1) ((now - ts) div ws)"
proof -
  have "time_sub now ts = now - ts" using assms by (simp add: time_sub_def)
  moreover have "0 \<le> (now - ts) div ws" "(now - ts) div ws \<le> now - ts" using assms by (simp_all add: zdiv_le_self)
  ultimately show ?thesis using assms
    by (simp add: window_index_def sdiv_nonneg i64_nonneg_id Let_def min_def)
qed

lemma window_index_neg_iff:
  assumes "0 < ws" and "ws < 2 ^ 63" and "0 < n"
  shows "window_index now ws n ts < 0 \<longleftrightarrow> now + ws \<le> ts" and "window_index now ws n ts < n"
proof -
  let ?d = "time_sub now ts"
  have d: "- (2 ^ 63) \<le> ?d" "?d < 2 ^ 63" by (simp_all add: time_sub_def)
  have q: "?d sdiv ws = (if 0 \<le> ?d then ?d div ws else - ((- ?d) div ws))"
    using assms by (simp add: signed_divide_int_def sgn_if)
  have "?d div ws \<le> ?d" "0 \<le> ?d div ws" if "0 \<le> ?d"
    using zdiv_le_self [OF that assms(1)] by simp_all
  moreover have "- ?d div ws \<le> - ?d" "0 \<le> - ?d div ws" if "?d < 0"
    using zdiv_le_self [of "- ?d" ws] that assms(1) by simp_all
  ultimately have "in64 (?d sdiv ws)" using d unfolding q in64_def by (cases "0 \<le> ?d") auto
  then have idx: "window_index now ws n ts = (if ?d sdiv ws \<ge> n then n - 1 else ?d sdiv ws)"
    by (simp add: window_index_def i64_id)
  have "?d sdiv ws < 0 \<longleftrightarrow> ?d \<le> - ws"
  proof (cases "0 \<le> ?d")
    case True
    then show ?thesis using assms by (simp add: q pos_imp_zdiv_nonneg_iff not_less)
  next
    case False
    then show ?thesis using assms pos_imp_zdiv_pos_iff [of ws "- ?d"] by (simp add: q) linarith
  qed
  also have "\<dots> \<longleftrightarrow> now + ws \<le> ts" using assms by (auto simp: time_sub_def)
  finally show "window_index now ws n ts < 0 \<longleftrightarrow> now + ws \<le> ts" using idx assms(3) by (auto split: if_splits)
  show "window_index now ws n ts < n" using idx by simp
qed

lemma stats_window_size_bound: "stats_window_size n keys < 2 ^ 63"
  using i64_in64 [unfolded in64_def] by (auto simp: stats_window_size_def second_def Let_def split: prod.split)


text \<open>The windows when every slice lies between the epoch and the present.\<close>

lemma stats_window_size_eq:
  assumes "ks \<noteq> []" and "\<forall>ts \<in> set ks. 0 < ts \<and> ts < 2 ^ 63" and n: "0 < n" "n \<le> 2 ^ 32"
    and d: "d = (Max (set ks) - Min (set ks)) div n"
  shows "stats_window_size n ks = (if d \<le> 0 then second else d)" and "(n - 1) * stats_window_size n ks < 2 ^ 63"
proof -
  have mm: "Min (set ks) \<in> set ks" "Max (set ks) \<in> set ks" "Min (set ks) \<le> Max (set ks)"
    using assms(1) by (auto intro: Min_le)
  then have "0 < Min (set ks)" "Max (set ks) < 2 ^ 63" using assms(2) by auto
  with mm(3) have d0: "0 \<le> Max (set ks) - Min (set ks)" "Max (set ks) - Min (set ks) < 2 ^ 63" by linarith+
  have "0 \<le> d" using d0 n by (simp add: d pos_imp_zdiv_nonneg_iff)
  have dn: "d * n \<le> Max (set ks) - Min (set ks)" unfolding d using n
    by (simp add: minus_mod_eq_div_mult [symmetric])
  have "d \<le> d * n" using \<open>0 \<le> d\<close> n mult_left_mono [of 1 n d] by simp
  then show ws: "stats_window_size n ks = (if d \<le> 0 then second else d)"
    using d0 dn n \<open>0 \<le> d\<close> ts_bounds_eq [OF assms(1)] assms(2)
    by (simp add: stats_window_size_def sdiv_nonneg i64_nonneg_id d Let_def)
  show "(n - 1) * stats_window_size n ks < 2 ^ 63"
  proof (cases "d \<le> 0")
    case True
    then show ?thesis using n by (simp add: ws second_def)
  next
    case False
    then show ?thesis using dn d0 by (simp add: ws algebra_simps)
  qed
qed

lemma window_age:
  assumes "0 < ws" and "(n - 1) * ws < 2 ^ 63" and "j < nat n"
  shows "i64 (- 1 * int (nat n - 1 - j) * ws) = - ((n - 1 - int j) * ws)"
proof -
  have "int (nat n - 1 - j) = n - 1 - int j" using assms(3) by auto
  moreover have "(n - 1 - int j) * ws \<le> (n - 1) * ws" "0 \<le> (n - 1 - int j) * ws"
    using assms by (auto intro!: mult_right_mono)
  ultimately show ?thesis using assms(2) i64_small [of "- ((n - 1 - int j) * ws)"]
    by (simp only: mult_minus1 mult_minus_left mult_1 abs_minus_cancel abs_of_nonneg)
qed

lemma empty_windows_ages:
  assumes "0 < ws" and "(n - 1) * ws < 2 ^ 63"
  shows "empty_windows now ws (nat n) =
    map (\<lambda>j. \<lparr>rqw_time = time_truncate (now - (n - 1 - int j) * ws) ws, rqw_count = 0\<rparr>) [0..<nat n]"
  unfolding empty_windows_eq
proof (rule map_cong [OF refl])
  fix j assume "j \<in> set [0..<nat n]"
  then have "j < nat n" by simp
  from window_age [OF assms this]
  show "\<lparr>rqw_time = time_truncate (now + i64 (- 1 * int (nat n - 1 - j) * ws)) ws, rqw_count = 0\<rparr> =
      \<lparr>rqw_time = time_truncate (now - (n - 1 - int j) * ws) ws, rqw_count = 0\<rparr>" by (simp only: add_uminus_conv_diff)
qed

lemma finite_window_map: "finite (dom (window_map T w))"
proof -
  have "finite (dom (foldl (\<lambda>res (key, v). res(key \<mapsto> v)) m kvs))" if "finite (dom m)"
    for m :: "int \<rightharpoonup> int" and kvs :: "(int \<times> int) list"
    using that
  proof (induction kvs arbitrary: m)
    case (Cons kv kvs)
    have "finite (dom (m(fst kv \<mapsto> snd kv)))" using Cons.prems by simp
    from Cons.IH [OF this] show ?case by (simp only: foldl.simps split_beta)
  qed simp
  from this [of Map.empty] show ?thesis unfolding window_map_def by (simp only: dom_empty finite.emptyI)
qed

text \<open>Which addresses the filters of \<open>getIPs\<close> let through.\<close>

definition listed :: "int \<Rightarrow> ipnet option \<Rightarrow> ip_details \<Rightarrow> bool" where
  "listed asn_filter network_filter d \<longleftrightarrow>
     (asn_filter > 0 \<longrightarrow> map_option asn_number (id_asn d) = Some asn_filter) \<and>
     (case network_filter of None \<Rightarrow> True | Some n \<Rightarrow> ipnet_contains n (id_ip d))"

lemma ips_loop_eq:
  "ips_loop asn_filter network_filter ds ips =
     (if asn_filter > 0 \<and> (\<exists>e \<in> set ds. id_asn (snd e) = None) then Inl NilDereference
      else Inr (ips @ filter (listed asn_filter network_filter) (map snd ds)))"
proof (induction ds arbitrary: ips)
  case (Cons e ds)
  obtain k d where "e = (k, d)" by (cases e)
  with Cons.IH show ?case
    by (cases "id_asn d"; cases network_filter) (auto simp add: listed_def)
qed simp

section \<open>Properties\<close>

text \<open>
  C29: The statistics of an address in n windows, when all its slices lie between the epoch and the present: the
  window size is the span of the slices divided by n (one second if that is 0), entry j of the list counts the
  requests that are j windows old, the last entry also those that are older, and every request is counted in
  exactly one entry. But entry j carries the time of n - 1 - j windows ago: the counts run backwards against
  their times.
\<close>

lemma request_windows_placed:
  assumes "map_range rng" and fin: "finite (dom m)" and ne: "dom m \<noteq> {}" and now: "\<forall>ts \<in> dom m. 0 < ts \<and> ts \<le> now"
    and "now < 2 ^ 63" and n: "0 < n" "n \<le> 2 ^ 32"
  shows "request_windows rng now n m =
    (let d = (Max (dom m) - Min (dom m)) div n;
         ws = (if d \<le> 0 then second else d)
     in Inr (map (\<lambda>j. \<lparr>rqw_time = time_truncate (now - (n - 1 - int j) * ws) ws,
          rqw_count = i64 (\<Sum>ts \<in> {ts \<in> dom m. min (n - 1) ((now - ts) div ws) = int j}. the (m ts))\<rparr>) [0..<nat n]))"
proof -
  note keys = map_range.range_keys [OF assms(1) fin]
  define d where "d = (Max (dom m) - Min (dom m)) div n"
  define ws where "ws = (if d \<le> 0 then second else d)"
  have ne': "map fst (rng m) \<noteq> []" using keys ne by (metis list.set(1))
  have in_range: "\<forall>ts \<in> set (map fst (rng m)). 0 < ts \<and> ts < 2 ^ 63"
    unfolding keys using now assms(5) le_less_trans by blast
  have ws: "stats_window_size n (map fst (rng m)) = ws"
    unfolding ws_def by (rule stats_window_size_eq(1) [OF ne' in_range n d_def [folded keys]])
  have bound: "(n - 1) * ws < 2 ^ 63"
    using stats_window_size_eq(2) [OF ne' in_range n d_def [folded keys]] unfolding ws .
  have pos: "0 < ws" by (simp add: ws_def second_def)
  note ew = empty_windows_ages [OF pos bound]
  have idx: "window_index now ws n ts = min (n - 1) ((now - ts) div ws)" if "ts \<in> dom m" for ts
    using that now assms(5) n pos by (intro window_index_age) auto
  have sums: "sum_list (map snd (filter (\<lambda>e. window_index now ws n (fst e) = int j) (rng m))) =
      (\<Sum>ts \<in> {ts \<in> dom m. min (n - 1) ((now - ts) div ws) = int j}. the (m ts))" for j
    using idx by (subst map_range.range_sum [OF assms(1) fin]) (metis (mono_tags, lifting) Collect_cong)
  have "request_windows rng now n m = count_windows now ws n (rng m) (empty_windows now ws (nat n))"
    using n ws by (simp add: request_windows_def Let_def)
  also have "\<dots> = Inr (map (\<lambda>j. \<lparr>rqw_time = time_truncate (now - (n - 1 - int j) * ws) ws,
      rqw_count = i64 (sum_list (map snd (filter (\<lambda>e. window_index now ws n (fst e) = int j) (rng m))))\<rparr>) [0..<nat n])"
  proof (subst count_windows_ok)
    show "\<forall>ts \<in> set (map fst (rng m)). 0 \<le> window_index now ws n ts \<and>
        window_index now ws n ts < int (length (empty_windows now ws (nat n)))"
      unfolding keys using idx n now pos by (auto simp: ew pos_imp_zdiv_nonneg_iff)
    show "\<forall>w \<in> set (empty_windows now ws (nat n)). in64 (rqw_count w)"
      by (auto simp: ew in64_def)
  qed (simp add: ew)
  finally show ?thesis
    unfolding sums by (simp only: Let_def d_def [symmetric] ws_def [symmetric])
qed


text \<open>
  C31: The addresses \<open>getIPs\<close> lists are exactly those that pass the two filters, each once, in descending order
  of the key asked for. With a filter for an autonomous system the request crashes as soon as the history holds
  any address whose system is not known.
\<close>

lemma get_ips_lists:
  assumes "slice_sort srt"
  shows "case get_ips srt sort_by by_asn by_network h of
      Inl p \<Rightarrow> p = NilDereference \<and> query_asn by_asn > 0 \<and> (\<exists>e \<in> set (history_each h). id_asn (snd e) = None)
    | Inr (Abort _) \<Rightarrow> False
    | Inr (JSON ips) \<Rightarrow>
        \<not> (query_asn by_asn > 0 \<and> (\<exists>e \<in> set (history_each h). id_asn (snd e) = None)) \<and>
        mset ips = mset (filter (listed (query_asn by_asn) (query_network by_network)) (map snd (history_each h))) \<and>
        sorted_wrt (\<lambda>a b. if sort_by = ''total'' then id_total a \<ge> id_total b
                          else unix_nano (id_created_at a) \<ge> unix_nano (id_created_at b)) ips"
  using slice_sort.sort_mset [OF assms] slice_sort.sort_descending [OF assms, of id_total]
    slice_sort.sort_descending [OF assms, of "\<lambda>d. unix_nano (id_created_at d)"]
  by (auto simp: get_ips_def ips_loop_eq)

text \<open>
  \<open>getBlockedIPs\<close> lists the messages of exactly those entries that the store holds for blocked addresses at
  that time, with the present counts of the addresses the history knows, in descending order of the key asked for.
\<close>

lemma get_blocked_ips_lists:
  assumes "slice_sort srt" and "kvstore K content" and "get_blocked_ips srt K decode now sort_by h db = JSON ips"
  shows "set ips = {overlay_totals h (fst (decode v)) | k v. prefix (ip_namespace []) k \<and> content db now k = Some v} \<and>
    sorted_wrt (\<lambda>a b. if sort_by = ''total'' then st_total a \<ge> st_total b
      else unix_nano (bm_blocked_at a) \<ge> unix_nano (bm_blocked_at b)) ips"
proof -
  have foldl: "foldl (\<lambda>bl v. bl @ [f v]) acc vs = acc @ map f vs" for f :: "string \<Rightarrow> ip_block_message" and acc vs
    by (induction vs arbitrary: acc) auto
  obtain vs where vs: "kv_each K db now (ip_namespace []) = (vs, None)"
    and ips: "ips = (if sort_by = ''total'' then srt (\<lambda>a b. st_total a > st_total b) else
        srt (\<lambda>a b. unix_nano (bm_blocked_at a) > unix_nano (bm_blocked_at b)))
          (map (\<lambda>v. overlay_totals h (fst (decode v))) vs)"
    using assms(3) by (auto simp: get_blocked_ips_def foldl Let_def split: prod.splits option.splits if_splits)
  from kvstore.each_content [OF assms(2) vs] slice_sort.sort_set [OF assms(1)]
  have "set ips = {overlay_totals h (fst (decode v)) | k v. prefix (ip_namespace []) k \<and> content db now k = Some v}"
    by (auto simp: ips)
  moreover have "sorted_wrt (\<lambda>a b. if sort_by = ''total'' then st_total a \<ge> st_total b
      else unix_nano (bm_blocked_at a) \<ge> unix_nano (bm_blocked_at b)) ips"
    using slice_sort.sort_descending [OF assms(1), of st_total]
      slice_sort.sort_descending [OF assms(1), of "\<lambda>d. unix_nano (bm_blocked_at d)"]
    by (auto simp: ips)
  ultimately show ?thesis by blast
qed

section \<open>Witnesses\<close>

definition wit_slices :: "int \<rightharpoonup> int" where
  "wit_slices = [10 \<mapsto> 3, 50 \<mapsto> 5]"

lemma wit_slices_dom: "dom wit_slices = {10, 50}"
  by (auto simp: wit_slices_def)

lemma request_windows_placed_witness:
  "request_windows sorted_range 60 2 wit_slices =
     Inr [\<lparr>rqw_time = time_truncate 40 20, rqw_count = 5\<rparr>, \<lparr>rqw_time = time_truncate 60 20, rqw_count = 3\<rparr>]"
proof -
  have "{ts \<in> dom wit_slices. min (2 - 1) ((60 - ts) div 20) = (0 :: int)} = {50}"
    "{ts \<in> dom wit_slices. min (2 - 1) ((60 - ts) div 20) = (1 :: int)} = {10}"
    by (auto simp: wit_slices_dom)
  moreover have "[0..<nat 2] = [0, 1]" by (simp add: upt_rec numeral_2_eq_2)
  moreover have "finite (dom wit_slices)" "dom wit_slices \<noteq> {}" "\<forall>ts \<in> dom wit_slices. 0 < ts \<and> ts \<le> 60"
    "(60 :: int) < 2 ^ 63" "(0 :: int) < 2" "(2 :: int) \<le> 2 ^ 32"
    by (auto simp: wit_slices_dom)
  moreover have "Max (dom wit_slices) = 50" "Min (dom wit_slices) = 10" by (auto simp: wit_slices_dom)
  moreover have "i64 3 = 3" "i64 5 = 5" by (simp_all add: i64_small)
  ultimately show ?thesis
    using request_windows_placed [OF sorted_rng.map_range_axioms, of wit_slices 60 2] by (simp add: wit_slices_def Let_def)
qed


lemma wit_history_each: "history_each wit_h1 = [(''10.1.2.3'', wit_details ''bot.example.org'' 301)]"
  using wit_h1_details by (simp add: history_each_def wit_h1_def)

lemma get_ips_lists_witness:
  "get_ips insertion_sort [] [] [] wit_h1 = Inr (JSON [wit_details ''bot.example.org'' 301])"
proof -
  have "query_asn [] = 0" "query_network [] = None" by (simp_all add: query_asn_def query_network_def)
  then show ?thesis
    using get_ips_lists [OF insertion.slice_sort_axioms, where sort_by = "[]" and by_asn = "[]" and by_network = "[]" and h = wit_h1]
    by (auto simp: wit_history_each listed_def split: sum.splits reply.splits)
qed

lemma get_blocked_ips_lists_witness:
  "\<exists>ips. get_blocked_ips insertion_sort mem_kv (\<lambda>v. (num_decode v, None)) (6 * second) [] wit_h0 wit_db = JSON ips \<and>
     ips \<noteq> []"
proof -
  obtain ips where ips: "get_blocked_ips insertion_sort mem_kv (\<lambda>v. (num_decode v, None)) (6 * second) [] wit_h0 wit_db = JSON ips"
    by (auto simp: get_blocked_ips_def wit_db_def mem_simps second_def Let_def)
  have "mem_content wit_db (6 * second) (ip_namespace wit_ip) = Some wit_bytes" "prefix (ip_namespace []) (ip_namespace wit_ip)"
    by (simp_all add: wit_db_def mem_simps second_def)
  with get_blocked_ips_lists [OF insertion.slice_sort_axioms mem_kvstore ips] ips show ?thesis by force
qed

end
