(* ===== verification/Startup.thy ===== *)
theory Startup
  imports Api
begin

text \<open>
  What \<open>New\<close> of \<^verbatim>\<open>botex.go\<close> puts together, of the parts that are modelled, and the plugin of
  \<^verbatim>\<open>plugins/ipmeta.go\<close>, which \<open>New\<close> always uses.
\<close>

section \<open>The plugin for addresses' data\<close>

text \<open>It never blocks and never whitelists. Its two handlers look an address up in the databases.\<close>

definition ipmeta_is_whitelisted :: "ip \<Rightarrow> bool" where
  "ipmeta_is_whitelisted ip = False"

definition ipmeta_should_be_blocked :: plugin_decision where
  "ipmeta_should_be_blocked st = (False, Reason [])"

definition ipmeta_get_asn :: "(ip \<Rightarrow> asn option) \<Rightarrow> string \<Rightarrow> asn option reply" where
  "ipmeta_get_asn asndb s = (let ip = parse_ip s in if ip = [] then Abort 422 else JSON (asndb ip))"

definition ipmeta_get_geoip :: "(ip \<Rightarrow> store_error + 'g) \<Rightarrow> string \<Rightarrow> 'g reply" where
  "ipmeta_get_geoip geodb s =
     (let ip = parse_ip s
      in if ip = [] then Abort 422 else case geodb ip of Inl err \<Rightarrow> Abort 422 | Inr geo \<Rightarrow> JSON geo)"

lemma ipmeta_no_verdict: "plugin_verdict (ps @ ipmeta_should_be_blocked # qs) st = plugin_verdict (ps @ qs) st"
  by (induction ps) (simp_all add: ipmeta_should_be_blocked_def split: prod.split)

section \<open>The initial state\<close>

text \<open>The block list of \<open>New\<close>, which is cleared if the configuration asks for it, and the store after that.\<close>

definition start_block :: "'db kvstore_api \<Rightarrow> block_json \<Rightarrow> config \<Rightarrow> bool \<Rightarrow> time \<times> time \<times> time \<Rightarrow> 'db \<Rightarrow> block \<times> 'db" where
  "start_block K J cfg clear_blocked now db =
     (new_block K J (fst now) (fst (snd now)) (cf_block_ttl cfg) db,
      if clear_blocked then clear K (snd (snd now)) db else db)"

text \<open>
  \<open>New\<close>: the whitelist is loaded (an error is dropped, patterns that do not compile when joined panic), the block
  list is built, then the history.
\<close>

definition new_botex :: "('m, 'n, 'db) env \<Rightarrow> block_json \<Rightarrow> (string \<Rightarrow> regexp option) \<Rightarrow> load_error + toml_rule wl_rules
    \<Rightarrow> bool \<Rightarrow> time \<Rightarrow> time \<times> time \<times> time \<Rightarrow> 'db \<Rightarrow> panic + ('m, 'n, 'db) botex" where
  "new_botex E J compile file clear_blocked now now' db =
     (case wl_reload compile file now new_whitelist of
        Inl p \<Rightarrow> Inl p
      | Inr (wl, _) \<Rightarrow>
          let (b, db') = start_block (en_store E) J (en_config E) clear_blocked now' db
          in case new_history E of
               Inl p \<Rightarrow> Inl p
             | Inr h \<Rightarrow> Inr \<lparr>bx_history = h, bx_db = db', bx_block = b, bx_whitelist = wl, bx_updates = [],
                            bx_block_chan = [], bx_resolving = []\<rparr>)"

text \<open>The web server socket is opened only if all four options are set.\<close>

definition wss_enabled :: "config \<Rightarrow> string \<Rightarrow> bool" where
  "wss_enabled cfg socket_file \<longleftrightarrow> cf_cookie_key cfg \<noteq> [] \<and> cf_cookie_name cfg \<noteq> [] \<and> cf_cookie_secret cfg \<noteq> [] \<and>
     socket_file \<noteq> []"

text \<open>A program that starts with \<open>ClearBlocked\<close> blocks nobody, whatever the database still holds.\<close>

lemma new_botex_unblocks:
  assumes "kvstore (en_store E) content" and "new_botex E J compile file True t1 (t2, t3, now) db = Inr s"
    and "\<And>p. \<not> isl (kv_remove (en_store E) db now p)"
    and "now \<le> u1" and "now \<le> u2" and "now \<le> u3" and "asn_network a = Some network"
  shows "is_blocked (en_store E) J u1 u2 u3 (bx_db s) ip (Some a) = Inr False"
proof -
  have "bx_db s = clear (en_store E) now db"
    using assms(2) by (auto simp: new_botex_def start_block_def Let_def split: sum.splits)
  moreover obtain db' where "kv_remove (en_store E) db now ''bl'' = Inr db'"
    using assms(3) [of "''bl''"] by (cases "kv_remove (en_store E) db now ''bl''") auto
  ultimately show ?thesis using clear_unblocks [OF assms(1) _ assms(4-7)] by simp
qed

text \<open>From the state that \<open>New\<close> makes, the whole system keeps its invariant, and the block worker can catch up.\<close>

lemma new_botex_reaches:
  assumes "new_botex E J compile file clear_blocked now now' db = Inr s" and "(botex_step E J)\<^sup>*\<^sup>* s s'"
  shows "sys_inv s'"
proof -
  have "new_history E = Inr (bx_history s)" and "bx_block_chan s = []"
    using assms(1) by (auto simp: new_botex_def start_block_def Let_def split: sum.splits)
  then have "sys_inv s" using new_history_inv by (simp add: sys_inv_def)
  with assms(2) show ?thesis
    by (induction rule: rtranclp_induct) (auto intro: botex_step_inv)
qed

end
