(* ===== verification/Encodings.thy ===== *)
theory Encodings
  imports Net
begin

text \<open>
  What \<^verbatim>\<open>webserversocket.go\<close> uses of Go's \<open>encoding/base64\<close>, \<open>net/url\<close> and \<open>strings\<close>: decoding the
  standard base 64 alphabet, \<open>QueryUnescape\<close>, \<open>Split\<close> at a character. The encoders, which the service that
  issues captcha cookies applies, are defined to state that the decoders invert them.
\<close>

section \<open>Split\<close>

fun split_on :: "char \<Rightarrow> string \<Rightarrow> string list" where
  "split_on sep [] = [[]]"
| "split_on sep (c # s) =
     (if c = sep then [] # split_on sep s
      else case split_on sep s of [] \<Rightarrow> [[c]] | w # ws \<Rightarrow> (c # w) # ws)"

lemma split_on_not_Nil [simp]: "split_on sep s \<noteq> []"
  by (induction s) (auto split: list.splits)

lemma split_on_id: "sep \<notin> set s \<Longrightarrow> split_on sep s = [s]"
  by (induction s) auto

lemma split_on_append: "sep \<notin> set w \<Longrightarrow> split_on sep (w @ sep # s) = w # split_on sep s"
  by (induction w) auto

section \<open>Base 64\<close>

definition b64_alphabet :: string where
  "b64_alphabet = map char_of ([65..<91] @ [97..<123] @ [48..<58] @ [43, 47 :: nat])"

definition b64_val :: "char \<Rightarrow> nat option" where
  "b64_val c = (let n = length (takeWhile (\<lambda>d. d \<noteq> c) b64_alphabet) in if n < 64 then Some n else None)"

definition b64_bytes :: "nat \<Rightarrow> nat \<Rightarrow> nat \<Rightarrow> nat \<Rightarrow> byte list" where
  "b64_bytes a b c d = (let n = ((a * 64 + b) * 64 + c) * 64 + d
     in [of_nat (n div 65536), of_nat (n div 256 mod 256), of_nat (n mod 256)])"

text \<open>
  Groups of four characters; the last may end in one or two padding characters, and bits that do not fill
  a byte are dropped.
\<close>

fun b64_quads :: "string \<Rightarrow> byte list option" where
  "b64_quads [] = Some []"
| "b64_quads (p # q # r # t # s) =
     (case (b64_val p, b64_val q, b64_val r, b64_val t) of
        (Some a, Some b, Some c, Some d) \<Rightarrow> map_option ((@) (b64_bytes a b c d)) (b64_quads s)
      | (Some a, Some b, Some c, None) \<Rightarrow>
          if t = CHR ''='' \<and> s = [] then Some (take 2 (b64_bytes a b c 0)) else None
      | (Some a, Some b, None, None) \<Rightarrow>
          if r = CHR ''='' \<and> t = CHR ''='' \<and> s = [] then Some (take 1 (b64_bytes a b 0 0)) else None
      | _ \<Rightarrow> None)"
| "b64_quads s = None"

text \<open>\<open>DecodeString\<close> ignores carriage returns and line feeds.\<close>

definition b64_decode :: "string \<Rightarrow> byte list option" where
  "b64_decode s = b64_quads (filter (\<lambda>c. (of_char c :: nat) \<notin> {10, 13}) s)"

definition b64_char :: "nat \<Rightarrow> char" where
  "b64_char n = b64_alphabet ! (n mod 64)"

fun b64_encode :: "byte list \<Rightarrow> string" where
  "b64_encode [] = []"
| "b64_encode [x] = (let n = unat x * 16 in [b64_char (n div 64), b64_char n, CHR ''='', CHR ''=''])"
| "b64_encode [x, y] = (let n = (unat x * 256 + unat y) * 4
     in [b64_char (n div 4096), b64_char (n div 64), b64_char n, CHR ''=''])"
| "b64_encode (x # y # z # bs) = (let n = (unat x * 256 + unat y) * 256 + unat z
     in [b64_char (n div 262144), b64_char (n div 4096), b64_char (n div 64), b64_char n] @ b64_encode bs)"

lemma b64_alphabet_facts: "distinct b64_alphabet" "length b64_alphabet = 64"
  by code_simp+

lemma b64_val_char [simp]: "b64_val (b64_char n) = Some (n mod 64)"
proof -
  have *: "length (takeWhile (\<lambda>x. x \<noteq> xs ! i) xs) = i" if "distinct xs" and "i < length xs" for xs :: string and i
    using that
  proof (induction xs arbitrary: i)
    case (Cons x xs)
    then show ?case by (cases i) (auto simp: nth_mem)
  qed simp
  show ?thesis
    by (simp add: b64_val_def b64_char_def * [OF b64_alphabet_facts(1)] b64_alphabet_facts)
qed

lemma b64_val_pad [simp]: "b64_val (CHR ''='') = None"
  by code_simp

lemma b64_bytes_split:
  assumes "x < 256" and "y < 256" and "z < 256" and n: "n = (x * 256 + y) * 256 + z"
  shows "b64_bytes (n div 262144 mod 64) (n div 4096 mod 64) (n div 64 mod 64) (n mod 64) =
    [of_nat x, of_nat y, of_nat z]"
proof -
  have "n < 262144 * 64" using assms by simp
  then have top: "n div 262144 mod 64 = n div 262144" by simp
  have "n div 262144 * 64 + n div 4096 mod 64 = n div 4096"
    using div_mult_mod_eq [of "n div 4096" 64] by (simp flip: div_mult2_eq)
  moreover have "n div 4096 * 64 + n div 64 mod 64 = n div 64"
    using div_mult_mod_eq [of "n div 64" 64] by (simp flip: div_mult2_eq)
  ultimately have "((n div 262144 * 64 + n div 4096 mod 64) * 64 + n div 64 mod 64) * 64 + n mod 64 = n"
    by simp
  moreover have "n div 65536 = x" using assms by simp
  moreover have d: "n div 256 = x * 256 + y" using assms by (intro div_nat_eqI) simp_all
  then have "n div 256 mod 256 = y" using assms by simp
  moreover have "n mod 256 = z" using d n by (simp add: modulo_nat_def)
  ultimately show ?thesis by (simp only: b64_bytes_def Let_def top)
qed


lemma b64_quads_encode: "b64_quads (b64_encode bs) = Some bs"
proof (induction bs rule: b64_encode.induct)
  case 1
  then show ?case by simp
next
  case (2 x)
  let ?n = "(unat x * 256 + 0) * 256 + 0"
  have "b64_bytes (?n div 262144 mod 64) (?n div 4096 mod 64) (?n div 64 mod 64) (?n mod 64) = [of_nat (unat x), of_nat 0, of_nat 0]"
    by (rule b64_bytes_split) (simp_all add: unat_byte)
  then show ?case by (simp add: Let_def mult.commute)
next
  case (3 x y)
  define m where "m = (unat x * 256 + unat y) * 4"
  have "b64_bytes (m * 64 div 262144 mod 64) (m * 64 div 4096 mod 64) (m * 64 div 64 mod 64) (m * 64 mod 64) =
      [of_nat (unat x), of_nat (unat y), of_nat 0]"
    by (rule b64_bytes_split) (simp_all add: unat_byte m_def)
  moreover have "m * 64 div 262144 = m div 4096" "m * 64 div 4096 = m div 64" by simp_all
  ultimately have "b64_bytes (m div 4096 mod 64) (m div 64 mod 64) (m mod 64) 0 = [x, y, 0]" by simp
  moreover have "1024 * unat x + unat y * 4 = m" by (simp add: m_def)
  ultimately show ?case by (simp add: Let_def)
next
  case (4 x y z bs)
  let ?n = "(unat x * 256 + unat y) * 256 + unat z"
  have "b64_bytes (?n div 262144 mod 64) (?n div 4096 mod 64) (?n div 64 mod 64) (?n mod 64) = [of_nat (unat x), of_nat (unat y), of_nat (unat z)]"
    by (rule b64_bytes_split) (simp_all add: unat_byte)
  with 4 show ?case by (simp add: Let_def)
qed

lemma b64_char_in: "b64_char n \<in> set b64_alphabet"
  by (simp add: b64_char_def b64_alphabet_facts)

lemma set_b64_encode: "set (b64_encode bs) \<subseteq> insert (CHR ''='') (set b64_alphabet)"
  by (induction bs rule: b64_encode.induct) (auto simp: Let_def b64_char_in)

lemma b64_no_newline: "list_all (\<lambda>c. (of_char c :: nat) \<notin> {10, 13}) (CHR ''='' # b64_alphabet)"
  by code_simp

lemma b64_round_trip [simp]: "b64_decode (b64_encode bs) = Some bs"
proof -
  have "(of_char c :: nat) \<notin> {10, 13}" if "c \<in> set (b64_encode bs)" for c
    using that set_b64_encode [of bs] b64_no_newline by (auto simp only: list_all_iff list.set)
  then have "filter (\<lambda>c. (of_char c :: nat) \<notin> {10, 13}) (b64_encode bs) = b64_encode bs"
    by (simp only: filter_id_conv) blast
  then show ?thesis by (simp only: b64_decode_def b64_quads_encode)
qed

section \<open>Query strings\<close>

definition hex_byte :: "string \<Rightarrow> char option" where
  "hex_byte s = (case s of
       h # l # _ \<Rightarrow> (case (hex_val h, hex_val l) of (Some a, Some b) \<Rightarrow> Some (char_of (a * 16 + b)) | _ \<Rightarrow> None)
     | _ \<Rightarrow> None)"

fun query_unescape :: "string \<Rightarrow> string option" where
  "query_unescape [] = Some []"
| "query_unescape (c # s) =
     (if c = CHR ''%'' then
        (case hex_byte s of None \<Rightarrow> None | Some b \<Rightarrow> map_option ((#) b) (query_unescape (drop 2 s)))
      else map_option ((#) (if c = CHR ''+'' then CHR '' '' else c)) (query_unescape s))"

definition hex_digit :: "nat \<Rightarrow> char" where
  "hex_digit n = char_of (if n < 10 then 48 + n else 55 + n)"

definition unreserved :: "char \<Rightarrow> bool" where
  "unreserved c \<longleftrightarrow> is_word c \<or> c = CHR ''-'' \<or> c = CHR ''.'' \<or> c = CHR ''~''"

definition query_escape :: "string \<Rightarrow> string" where
  "query_escape s = concat (map (\<lambda>c. if unreserved c then [c]
     else if c = CHR '' '' then ''+''
     else [CHR ''%'', hex_digit (of_char c div 16), hex_digit (of_char c mod 16)]) s)"

lemma hex_val_digit [simp]: "n < 16 \<Longrightarrow> hex_val (hex_digit n) = Some n"
  by (auto simp: hex_val_def hex_digit_def of_char_of Let_def)

lemma not_unreserved: "\<not> unreserved (CHR ''%'')" "\<not> unreserved (CHR ''+'')"
  by code_simp+

lemma query_round_trip [simp]: "query_unescape (query_escape s) = Some s"
proof (induction s)
  case Nil
  then show ?case by (simp add: query_escape_def)
next
  case (Cons c s)
  have "(of_char c :: nat) div 16 < 16" "(of_char c :: nat) mod 16 < 16" by (simp_all add: less_mult_imp_div_less)
  moreover have "of_char c div 16 * 16 + of_char c mod 16 = (of_char c :: nat)" by simp
  ultimately have hex: "hex_byte (hex_digit (of_char c div 16) # hex_digit (of_char c mod 16) # r) = Some c" for r
    by (simp add: hex_byte_def)
  have "c \<noteq> CHR ''%''" "c \<noteq> CHR ''+''" if "unreserved c" using that not_unreserved by auto
  with Cons hex show ?case by (auto simp: query_escape_def)
qed

lemma set_query_escape: "c \<in> set (query_escape s) \<Longrightarrow> unreserved c \<or> c = CHR ''+'' \<or> c = CHR ''%'' \<or>
    (\<exists>n < 16. c = hex_digit n)"
proof -
  assume "c \<in> set (query_escape s)"
  then obtain d where "c \<in> set (if unreserved d then [d] else if d = CHR '' '' then ''+''
      else [CHR ''%'', hex_digit (of_char d div 16), hex_digit (of_char d mod 16)])"
    by (auto simp only: query_escape_def set_concat set_map image_iff)
  moreover have "\<exists>n < 16. hex_digit (of_char d div 16) = hex_digit n"
    by (intro exI [of _ "of_char d div 16"]) (simp add: less_mult_imp_div_less)
  moreover have "\<exists>n < 16. hex_digit (of_char d mod 16) = hex_digit n"
    by (intro exI [of _ "of_char d mod 16"]) simp
  ultimately show ?thesis by (simp split: if_splits) blast
qed

end
