(* ===== verification/Aes.thy ===== *)
theory Aes
  imports Types
begin

text \<open>
  Go's packages \<open>crypto/aes\<close> and \<open>crypto/cipher\<close>, as far as \<^verbatim>\<open>webserversocket.go\<close> uses them: the block
  cipher AES with keys of 16, 24 and 32 bytes (FIPS 197), and cipher block chaining. A state of the cipher is
  the list of its 16 bytes, column by column. What the program relies on is the locale \<open>block_cipher\<close>:
  decryption inverts encryption.
\<close>

unbundle bit_operations_syntax

section \<open>Bytes\<close>

text \<open>Multiplication by the polynomial \<open>x\<close> in the field of 256 elements.\<close>

definition xtime :: "byte \<Rightarrow> byte" where
  "xtime b = push_bit 1 b XOR (if bit b 7 then 27 else 0)"

definition sbox_codes :: "nat list" where
  "sbox_codes = [
     99, 124, 119, 123, 242, 107, 111, 197, 48, 1, 103, 43, 254, 215, 171, 118,
     202, 130, 201, 125, 250, 89, 71, 240, 173, 212, 162, 175, 156, 164, 114, 192,
     183, 253, 147, 38, 54, 63, 247, 204, 52, 165, 229, 241, 113, 216, 49, 21,
     4, 199, 35, 195, 24, 150, 5, 154, 7, 18, 128, 226, 235, 39, 178, 117,
     9, 131, 44, 26, 27, 110, 90, 160, 82, 59, 214, 179, 41, 227, 47, 132,
     83, 209, 0, 237, 32, 252, 177, 91, 106, 203, 190, 57, 74, 76, 88, 207,
     208, 239, 170, 251, 67, 77, 51, 133, 69, 249, 2, 127, 80, 60, 159, 168,
     81, 163, 64, 143, 146, 157, 56, 245, 188, 182, 218, 33, 16, 255, 243, 210,
     205, 12, 19, 236, 95, 151, 68, 23, 196, 167, 126, 61, 100, 93, 25, 115,
     96, 129, 79, 220, 34, 42, 144, 136, 70, 238, 184, 20, 222, 94, 11, 219,
     224, 50, 58, 10, 73, 6, 36, 92, 194, 211, 172, 98, 145, 149, 228, 121,
     231, 200, 55, 109, 141, 213, 78, 169, 108, 86, 244, 234, 101, 122, 174, 8,
     186, 120, 37, 46, 28, 166, 180, 198, 232, 221, 116, 31, 75, 189, 139, 138,
     112, 62, 181, 102, 72, 3, 246, 14, 97, 53, 87, 185, 134, 193, 29, 158,
     225, 248, 152, 17, 105, 217, 142, 148, 155, 30, 135, 233, 206, 85, 40, 223,
     140, 161, 137, 13, 191, 230, 66, 104, 65, 153, 45, 15, 176, 84, 187, 22
   ]"

definition sbox :: "byte list" where
  "sbox = map of_nat sbox_codes"

definition sub_byte :: "byte \<Rightarrow> byte" where
  "sub_byte b = sbox ! unat b"

definition inv_sub_byte :: "byte \<Rightarrow> byte" where
  "inv_sub_byte c = of_nat (length (takeWhile (\<lambda>x. x \<noteq> c) sbox))"

section \<open>Steps of a round\<close>

definition sub_bytes :: "byte list \<Rightarrow> byte list" where
  "sub_bytes s = map sub_byte s"

definition inv_sub_bytes :: "byte list \<Rightarrow> byte list" where
  "inv_sub_bytes s = map inv_sub_byte s"

definition shift_rows :: "byte list \<Rightarrow> byte list" where
  "shift_rows s = map (\<lambda>i. s ! ((i + 4 * (i mod 4)) mod 16)) [0..<16]"

definition inv_shift_rows :: "byte list \<Rightarrow> byte list" where
  "inv_shift_rows s = map (\<lambda>i. s ! ((i + 12 * (i mod 4)) mod 16)) [0..<16]"

definition mix :: "byte \<Rightarrow> byte \<Rightarrow> byte \<Rightarrow> byte \<Rightarrow> byte" where
  "mix a b c d = xtime a XOR (xtime b XOR b) XOR c XOR d"

fun mix_columns :: "byte list \<Rightarrow> byte list" where
  "mix_columns (a # b # c # d # s) = mix a b c d # mix b c d a # mix c d a b # mix d a b c # mix_columns s"
| "mix_columns s = s"

text \<open>The inverse multiplies by 14, 11, 13 and 9, that is by sums of powers of \<open>x\<close>.\<close>

definition inv_mix :: "byte \<Rightarrow> byte \<Rightarrow> byte \<Rightarrow> byte \<Rightarrow> byte" where
  "inv_mix a b c d =
     (let x2 = xtime; x4 = xtime \<circ> x2; x8 = xtime \<circ> x4
      in (x8 a XOR x4 a XOR x2 a) XOR (x8 b XOR x2 b XOR b) XOR (x8 c XOR x4 c XOR c) XOR (x8 d XOR d))"

fun inv_mix_columns :: "byte list \<Rightarrow> byte list" where
  "inv_mix_columns (a # b # c # d # s) =
     inv_mix a b c d # inv_mix b c d a # inv_mix c d a b # inv_mix d a b c # inv_mix_columns s"
| "inv_mix_columns s = s"

definition add_round_key :: "byte list \<Rightarrow> byte list \<Rightarrow> byte list" where
  "add_round_key k s = map (\<lambda>i. s ! i XOR k ! i) [0..<16]"

section \<open>The key schedule and the cipher\<close>

definition key_word :: "nat \<Rightarrow> byte list list \<Rightarrow> nat \<Rightarrow> byte list" where
  "key_word nk ws i =
     (let t = ws ! (i - 1);
          t' = (if i mod nk = 0 then
                  (case map sub_byte (rotate1 t) of [] \<Rightarrow> [] | b # bs \<Rightarrow> (b XOR (xtime ^^ (i div nk - 1)) 1) # bs)
                else if nk > 6 \<and> i mod nk = 4 then map sub_byte t else t)
      in map2 (\<lambda>a b. a XOR b) (ws ! (i - nk)) t')"

definition round_keys :: "byte list \<Rightarrow> byte list list" where
  "round_keys key =
     (let nk = length key div 4;
          ws = foldl (\<lambda>ws i. ws @ [key_word nk ws i]) (map (\<lambda>i. take 4 (drop (4 * i) key)) [0..<nk])
                 [nk..<4 * (nk + 7)]
      in map (\<lambda>r. concat (take 4 (drop (4 * r) ws))) [0..<nk + 7])"

definition enc_round :: "byte list \<Rightarrow> byte list \<Rightarrow> byte list" where
  "enc_round s k = add_round_key k (mix_columns (shift_rows (sub_bytes s)))"

definition dec_round :: "byte list \<Rightarrow> byte list \<Rightarrow> byte list" where
  "dec_round s k = inv_sub_bytes (inv_shift_rows (inv_mix_columns (add_round_key k s)))"

definition aes_encrypt :: "byte list \<Rightarrow> byte list \<Rightarrow> byte list" where
  "aes_encrypt key s =
     (let ks = round_keys key
      in add_round_key (last ks) (shift_rows (sub_bytes
           (foldl enc_round (add_round_key (hd ks) s) (butlast (tl ks))))))"

definition aes_decrypt :: "byte list \<Rightarrow> byte list \<Rightarrow> byte list" where
  "aes_decrypt key s =
     (let ks = round_keys key
      in add_round_key (hd ks)
           (foldl dec_round (inv_sub_bytes (inv_shift_rows (add_round_key (last ks) s))) (rev (butlast (tl ks)))))"

section \<open>Decryption inverts encryption\<close>

lemma xor_cancel: "a XOR (a XOR b) = (b :: byte)"
  by (simp flip: xor.assoc)

lemmas xor_simps = xor.assoc xor.commute xor.left_commute xor_cancel

lemma xtime_xor: "xtime (a XOR b) = xtime a XOR xtime b"
  by (cases "bit a 7"; cases "bit b 7") (simp_all add: xtime_def bit_xor_iff push_bit_xor xor_simps)

lemma inv_mix_mix: "inv_mix (mix a b c d) (mix b c d a) (mix c d a b) (mix d a b c) = a"
  by (simp only: inv_mix_def mix_def Let_def o_apply xtime_xor xor_simps xor_self_eq xor.right_neutral
      xor.left_neutral)

lemma inv_mix_columns_mix: "inv_mix_columns (mix_columns s) = s"
  by (induction s rule: mix_columns.induct) (simp_all add: inv_mix_mix)

lemma sbox_codes_distinct: "distinct sbox_codes"
  by (simp only: sbox_codes_def distinct.simps list.set insert_iff empty_iff Num.numeral_eq_iff semiring_norm
      one_eq_numeral_iff numeral_eq_one_iff zero_neq_numeral numeral_neq_zero zero_neq_one one_neq_zero simp_thms)

lemma sbox_codes_bound: "list_all (\<lambda>n. n < 256) sbox_codes" "length sbox_codes = 256"
  by (simp_all add: sbox_codes_def)

lemma sbox_facts: "distinct sbox" "length sbox = 256"
proof -
  have "inj_on (of_nat :: nat \<Rightarrow> byte) {0..<256}"
    by (rule inj_onI) (simp add: of_nat_inverse word_of_nat_eq_iff take_bit_nat_eq_self)
  moreover have "set sbox_codes \<subseteq> {0..<256}" using sbox_codes_bound(1) by (auto simp: list_all_iff)
  ultimately show "distinct sbox"
    by (simp add: sbox_def distinct_map sbox_codes_distinct inj_on_subset)
  show "length sbox = 256" by (simp add: sbox_def sbox_codes_bound(2))
qed

lemma length_takeWhile_nth:
  "distinct xs \<Longrightarrow> i < length xs \<Longrightarrow> length (takeWhile (\<lambda>x. x \<noteq> xs ! i) xs) = i"
proof (induction xs arbitrary: i)
  case Nil
  then show ?case by simp
next
  case (Cons x xs)
  then show ?case by (cases i) (auto simp: nth_mem)
qed

lemma inv_sub_byte_sub [simp]: "inv_sub_byte (sub_byte b) = b"
proof -
  have "unat b < length sbox" using unsigned_less [of b] by (simp add: sbox_facts)
  then show ?thesis
    by (simp add: inv_sub_byte_def sub_byte_def length_takeWhile_nth sbox_facts)
qed

lemma inv_sub_bytes_sub: "inv_sub_bytes (sub_bytes s) = s"
  by (simp add: inv_sub_bytes_def sub_bytes_def comp_def)

lemma inv_shift_rows_shift:
  assumes "length s = 16"
  shows "inv_shift_rows (shift_rows s) = s"
proof (rule nth_equalityI)
  show "length (inv_shift_rows (shift_rows s)) = length s"
    using assms by (simp add: inv_shift_rows_def)
next
  fix i assume "i < length (inv_shift_rows (shift_rows s))"
  then have i: "i < 16" by (simp add: inv_shift_rows_def)
  have "list_all (\<lambda>i. ((i + 12 * (i mod 4)) mod 16 + 4 * ((i + 12 * (i mod 4)) mod 16 mod 4)) mod 16 = i) [0..<16]"
    by code_simp
  with i have "((i + 12 * (i mod 4)) mod 16 + 4 * ((i + 12 * (i mod 4)) mod 16 mod 4)) mod 16 = i"
    by (simp add: list_all_iff)
  with i show "inv_shift_rows (shift_rows s) ! i = s ! i"
    by (simp add: inv_shift_rows_def shift_rows_def)
qed

lemma length_shift_rows [simp]: "length (shift_rows s) = 16" "length (inv_shift_rows s) = 16"
  by (simp_all add: shift_rows_def inv_shift_rows_def)

lemma length_mix_columns [simp]: "length (mix_columns s) = length s" "length (inv_mix_columns s) = length s"
  by (induction s rule: mix_columns.induct) simp_all

lemma length_add_round_key [simp]: "length (add_round_key k s) = 16"
  by (simp add: add_round_key_def)

lemma length_sub_bytes [simp]: "length (sub_bytes s) = length s" "length (inv_sub_bytes s) = length s"
  by (simp_all add: sub_bytes_def inv_sub_bytes_def)

lemma add_round_key_twice: "length s = 16 \<Longrightarrow> add_round_key k (add_round_key k s) = s"
  by (rule nth_equalityI) (auto simp: add_round_key_def xor_simps)

lemma dec_round_enc: "length s = 16 \<Longrightarrow> dec_round (enc_round s k) k = s"
  by (simp add: dec_round_def enc_round_def add_round_key_twice inv_mix_columns_mix inv_shift_rows_shift
      inv_sub_bytes_sub)

lemma length_enc_rounds: "length s = 16 \<Longrightarrow> length (foldl enc_round s ks) = 16"
  by (induction ks arbitrary: s) (simp_all add: enc_round_def)

lemma length_dec_rounds: "length s = 16 \<Longrightarrow> length (foldl dec_round s ks) = 16"
  by (induction ks arbitrary: s) (simp_all add: dec_round_def)

lemma dec_rounds_enc: "length s = 16 \<Longrightarrow> foldl dec_round (foldl enc_round s ks) (rev ks) = s"
  by (induction ks rule: rev_induct) (simp_all add: dec_round_enc length_enc_rounds)

lemma aes_decrypt_encrypt: "length s = 16 \<Longrightarrow> aes_decrypt key (aes_encrypt key s) = s"
  by (simp add: aes_decrypt_def aes_encrypt_def Let_def add_round_key_twice inv_shift_rows_shift
      inv_sub_bytes_sub dec_rounds_enc length_enc_rounds)

lemma length_aes_encrypt: "length (aes_encrypt key s) = 16"
  by (simp add: aes_encrypt_def Let_def)

section \<open>Cipher block chaining\<close>

fun blocks_of :: "byte list \<Rightarrow> byte list list" where
  "blocks_of bs = (if bs = [] then [] else take 16 bs # blocks_of (drop 16 bs))"

declare blocks_of.simps [simp del]

definition xor_block :: "byte list \<Rightarrow> byte list \<Rightarrow> byte list" where
  "xor_block a b = map2 (\<lambda>x y. x XOR y) a b"

fun cbc_encrypt :: "(byte list \<Rightarrow> byte list) \<Rightarrow> byte list \<Rightarrow> byte list list \<Rightarrow> byte list list" where
  "cbc_encrypt e iv [] = []"
| "cbc_encrypt e iv (b # bs) = (let c = e (xor_block iv b) in c # cbc_encrypt e c bs)"

fun cbc_decrypt :: "(byte list \<Rightarrow> byte list) \<Rightarrow> byte list \<Rightarrow> byte list list \<Rightarrow> byte list list" where
  "cbc_decrypt d iv [] = []"
| "cbc_decrypt d iv (c # cs) = xor_block iv (d c) # cbc_decrypt d c cs"

locale block_cipher =
  fixes enc dec :: "byte list \<Rightarrow> byte list"
  assumes length_enc: "length b = 16 \<Longrightarrow> length (enc b) = 16"
    and dec_enc: "length b = 16 \<Longrightarrow> dec (enc b) = b"
begin

lemma length_cbc_encrypt:
  "length iv = 16 \<Longrightarrow> \<forall>b \<in> set bs. length b = 16 \<Longrightarrow> \<forall>c \<in> set (cbc_encrypt enc iv bs). length c = 16"
proof (induction bs arbitrary: iv)
  case Nil
  then show ?case by simp
next
  case (Cons b bs)
  then have "length (enc (xor_block iv b)) = 16" by (simp add: length_enc xor_block_def)
  with Cons show ?case by (simp add: Let_def)
qed

lemma cbc_round_trip:
  "length iv = 16 \<Longrightarrow> \<forall>b \<in> set bs. length b = 16 \<Longrightarrow> cbc_decrypt dec iv (cbc_encrypt enc iv bs) = bs"
proof (induction bs arbitrary: iv)
  case Nil
  then show ?case by simp
next
  case (Cons b bs)
  have "xor_block iv (xor_block iv b) = b"
    using Cons.prems by (intro nth_equalityI) (auto simp: xor_block_def xor_simps)
  with Cons show ?case by (simp add: Let_def dec_enc length_enc xor_block_def)
qed

end

interpretation aes: block_cipher "aes_encrypt key" "aes_decrypt key"
  by unfold_locales (simp_all add: aes_decrypt_encrypt length_aes_encrypt)

lemma blocks_of_concat: "\<forall>b \<in> set bs. length b = 16 \<Longrightarrow> blocks_of (concat bs) = bs"
proof (induction bs)
  case Nil
  then show ?case by (simp add: blocks_of.simps)
next
  case (Cons b bs)
  then have "b \<noteq> []" by auto
  with Cons show ?case by (simp add: blocks_of.simps [of "b @ concat bs"])
qed

lemma blocks_of_length:
  assumes "length bs = 16 * n"
  shows "concat (blocks_of bs) = bs \<and> (\<forall>b \<in> set (blocks_of bs). length b = 16)"
  using assms
proof (induction n arbitrary: bs)
  case 0
  then show ?case by (simp add: blocks_of.simps)
next
  case (Suc n)
  then have bs: "bs \<noteq> []" and len: "length (drop 16 bs) = 16 * n" and take: "length (take 16 bs) = 16" by auto
  from bs have "blocks_of bs = take 16 bs # blocks_of (drop 16 bs)" by (subst blocks_of.simps) simp
  with Suc.IH [OF len] take show ?case by simp
qed

lemma length_concat_blocks: "\<forall>b \<in> set bs. length b = 16 \<Longrightarrow> length (concat bs) = 16 * length bs"
  by (induction bs) simp_all

end
