(* ===== verification/WebserverSocket.thy ===== *)
theory WebserverSocket
  imports Block Encodings Aes
begin

text \<open>
  \<^verbatim>\<open>webserversocket.go\<close>: the socket on which a web server asks, one line of JSON per request, whether to
  let the request pass. The answer is \<open>BLOCK\<close> when one of the addresses of the request is blocked, unless
  the request carries the encrypted cookie of a solved captcha. Listening, accepting and scanning lines are
  I/O: \<open>wss_serve\<close> takes the lines of one connection and gives the lines written to it. The JSON decoder
  is a parameter, as are the clock readings.
\<close>

section \<open>State\<close>

record wss =
  ws_private :: "ipnet list"
  ws_cookie_key :: "byte list"
  ws_config :: config

definition private_cidrs :: "string list" where
  "private_cidrs = [''127.0.0.0/8'', ''10.0.0.0/8'', ''172.16.0.0/12'', ''192.168.0.0/16'', ''::1/128'',
     ''fe80::/10'', ''fc00::/7'']"

text \<open>Every one of these networks parses (lemma \<open>private_cidrs_parse\<close>), so none is the nil pointer.\<close>

definition new_webserver_socket :: "config \<Rightarrow> wss option" where
  "new_webserver_socket cfg =
     (case b64_decode (cf_cookie_key cfg) of
        None \<Rightarrow> None
      | Some key \<Rightarrow> Some \<lparr>ws_private = map (\<lambda>c. the (parse_cidr c)) private_cidrs, ws_cookie_key = key,
                          ws_config = cfg\<rparr>)"

section \<open>Padding and encryption\<close>

definition wss_pad :: "byte list \<Rightarrow> byte list" where
  "wss_pad bs = (let padding = 16 - length bs mod 16 in bs @ replicate padding (of_nat padding))"

definition wss_unpad :: "byte list \<Rightarrow> byte list" where
  "wss_unpad bs =
     (if length bs = 0 then []
      else let padding = bs ! (length bs - 1)
           in if unat padding > length bs \<or> padding > 16 then []
              else if padding = 0 then []
              else if \<not> list_all (\<lambda>i. bs ! i = padding) [length bs - unat padding..<length bs] then []
              else take (length bs - unat padding) bs)"

text \<open>\<open>aes.NewCipher\<close> refuses keys of other lengths. \<open>iv\<close> is what \<open>rand.Read\<close> gives.\<close>

definition key_size_ok :: "byte list \<Rightarrow> bool" where
  "key_size_ok key \<longleftrightarrow> length key \<in> {16, 24, 32}"

definition wss_encrypt :: "byte list \<Rightarrow> byte list \<Rightarrow> byte list \<Rightarrow> byte list option" where
  "wss_encrypt iv plaintext key =
     (if \<not> key_size_ok key then None
      else Some (iv @ concat (cbc_encrypt (aes_encrypt key) iv (blocks_of (wss_pad plaintext)))))"

text \<open>
  Slicing off the vector panics on fewer than 16 bytes (the second slice does, whatever the capacity), and
  \<open>CryptBlocks\<close> panics unless the rest is a sequence of whole blocks.
\<close>

definition wss_decrypt :: "byte list \<Rightarrow> byte list \<Rightarrow> panic + byte list option" where
  "wss_decrypt data key =
     (if \<not> key_size_ok key then Inr None
      else if length data < 16 then Inl IndexOutOfRange
      else let iv = take 16 data; encrypted = drop 16 data
           in if length encrypted mod 16 \<noteq> 0 then Inl (InvalidInput ''input not full blocks'')
              else Inr (Some (wss_unpad (concat (cbc_decrypt (aes_decrypt key) iv (blocks_of encrypted))))))"

section \<open>Addresses\<close>

definition wss_parse_ip :: "string \<Rightarrow> ip" where
  "wss_parse_ip s = ip_to16 (parse_ip s)"

definition is_private_ip :: "wss \<Rightarrow> ip \<Rightarrow> bool" where
  "is_private_ip W ip = (cf_ignore_private_ips (ws_config W) \<and> list_ex (\<lambda>n. ipnet_contains n ip) (ws_private W))"

definition candidate_ips :: "wss \<Rightarrow> string \<Rightarrow> string \<Rightarrow> ip list" where
  "candidate_ips W ip xff =
     (if wss_parse_ip ip \<noteq> [] then [wss_parse_ip ip] else []) @
     filter (\<lambda>a. a \<noteq> [] \<and> \<not> is_private_ip W a)
       (map (\<lambda>x. wss_parse_ip (trim_space x)) (split_on (CHR '','') xff))"

section \<open>The captcha cookie\<close>

text \<open>\<open>time.Unix(sec, 0)\<close> at any 64-bit argument: the seconds are kept from the year 1, and wrap around.\<close>

definition unix_time :: "int \<Rightarrow> time" where
  "unix_time sec = unix_sec (i64 (sec + 62135596800) - 62135596800)"

text \<open>
  The decrypted content: secret, addresses and time stamp. \<open>None\<close> says that the loop goes on with the next
  cookie, \<open>Some\<close> that it returns.
\<close>

definition cookie_content :: "wss \<Rightarrow> time \<Rightarrow> ip list \<Rightarrow> string \<Rightarrow> bool option" where
  "cookie_content W now ips dec =
     (case split_on (CHR ''|'') dec of
        [secret, addrs, stamp] \<Rightarrow>
          if secret \<noteq> cf_cookie_secret (ws_config W) then Some False
          else (case parse_int64 stamp of
                  None \<Rightarrow> Some False
                | Some ts \<Rightarrow>
                    if unix_time ts < now then Some False
                    else let ip_map = foldl (\<lambda>m ip. m(ip_string ip \<mapsto> ip)) Map.empty ips
                         in if list_ex (\<lambda>a. case ip_map (trim_space a) of None \<Rightarrow> False | Some v \<Rightarrow> v \<noteq> [])
                                 (split_on (CHR '','') addrs)
                            then Some True else None)
      | _ \<Rightarrow> Some False)"

text \<open>One turn of the loop, on a trimmed cookie. A value that does not unescape counts as empty.\<close>

definition captcha_cookie :: "wss \<Rightarrow> time \<Rightarrow> ip list \<Rightarrow> string \<Rightarrow> panic + bool option" where
  "captcha_cookie W now ips cookie =
     (let name = takeWhile (\<lambda>c. c \<noteq> CHR ''='') cookie;
          value = tl (dropWhile (\<lambda>c. c \<noteq> CHR ''='') cookie)
      in if \<not> prefix (cf_cookie_name (ws_config W) @ ''='') cookie then Inr None
         else if name \<noteq> cf_cookie_name (ws_config W) then Inr None
         else if length (ws_cookie_key W) \<noteq> 32 then Inr (Some True)
         else case b64_decode (case query_unescape value of None \<Rightarrow> [] | Some v \<Rightarrow> v) of
                None \<Rightarrow> Inr (Some False)
              | Some bin \<Rightarrow>
                  (case wss_decrypt bin (ws_cookie_key W) of
                     Inl p \<Rightarrow> Inl p
                   | Inr None \<Rightarrow> Inr (Some False)
                   | Inr (Some dec) \<Rightarrow> Inr (cookie_content W now ips (str_of_bytes dec))))"

fun scan_cookies :: "wss \<Rightarrow> (nat \<Rightarrow> time) \<Rightarrow> ip list \<Rightarrow> nat \<Rightarrow> string list \<Rightarrow> panic + bool" where
  "scan_cookies W now ips i [] = Inr False"
| "scan_cookies W now ips i (c # cs) =
     (case captcha_cookie W (now i) ips (trim_space c) of
        Inl p \<Rightarrow> Inl p
      | Inr (Some b) \<Rightarrow> Inr b
      | Inr None \<Rightarrow> scan_cookies W now ips (Suc i) cs)"

definition has_valid_captcha_cookie :: "wss \<Rightarrow> (nat \<Rightarrow> time) \<Rightarrow> string \<Rightarrow> ip list \<Rightarrow> panic + bool" where
  "has_valid_captcha_cookie W now cookies ips = scan_cookies W now ips 0 (split_on (CHR '';'') cookies)"

section \<open>Deciding\<close>

definition wss_ok :: string where "wss_ok = ''OK''"
definition wss_block :: string where "wss_block = ''BLOCK''"

definition wss_lookup :: "'db kvstore_api \<Rightarrow> block_json \<Rightarrow> time \<Rightarrow> 'db \<Rightarrow> ip \<Rightarrow> string" where
  "wss_lookup K J now db ip = (case get_ip K J now db ip of Inl _ \<Rightarrow> wss_ok | Inr _ \<Rightarrow> wss_block)"

text \<open>
  The lookups run concurrently, each at its own time, and answer in any order; what is received is
  \<open>BLOCK\<close> if one of them answers so, in whatever order.
\<close>

definition lookups :: "'db kvstore_api \<Rightarrow> block_json \<Rightarrow> (nat \<Rightarrow> time) \<Rightarrow> 'db \<Rightarrow> ip list \<Rightarrow> string" where
  "lookups K J now db ips =
     foldl (\<lambda>decision (i, ip). if wss_lookup K J (now i) db ip = wss_block then wss_block else decision) wss_ok
       (List.enumerate 0 ips)"

definition wss_decide :: "'db kvstore_api \<Rightarrow> block_json \<Rightarrow> wss \<Rightarrow> (nat \<Rightarrow> time) \<Rightarrow> (nat \<Rightarrow> time) \<Rightarrow> 'db
    \<Rightarrow> string \<Rightarrow> string \<Rightarrow> string \<Rightarrow> panic + string" where
  "wss_decide K J W now now' db ip xff cookies =
     (let ips = candidate_ips W ip xff;
          decision = lookups K J now db ips
      in if decision \<noteq> wss_ok then
           (case has_valid_captcha_cookie W now' cookies ips of
              Inl p \<Rightarrow> Inl p
            | Inr valid \<Rightarrow> Inr (if valid then wss_ok else decision))
         else Inr decision)"

section \<open>Serving a connection\<close>

record server_data =
  sd_url :: string
  sd_ip :: string
  sd_xff :: string
  sd_cookies :: string
  sd_useragent :: string
  sd_headers :: "string \<rightharpoonup> string"
  sd_method :: string

definition server_data0 :: server_data where
  "server_data0 = \<lparr>sd_url = [], sd_ip = [], sd_xff = [], sd_cookies = [], sd_useragent = [],
     sd_headers = Map.empty, sd_method = []\<rparr>"

definition source_ip :: "server_data \<Rightarrow> string" where
  "source_ip sd = (if sd_xff sd \<noteq> [] then trim_space (hd (split_on (CHR '','') (sd_xff sd))) else sd_ip sd)"

definition socket_request :: "time \<Rightarrow> server_data \<Rightarrow> request" where
  "socket_request ts sd =
     \<lparr>rq_url = sd_url sd, rq_host = (case sd_headers sd ''host'' of None \<Rightarrow> [] | Some h \<Rightarrow> h),
      rq_agent = sd_useragent sd, rq_source = source_ip sd, rq_method = sd_method sd, rq_seq = 0,
      rq_timestamp = unix_nano ts, rq_time = ts, rq_asn = None, rq_is_app = False\<rparr>"

record line_clock =
  lc_request :: time
  lc_lookup :: "nat \<Rightarrow> time"
  lc_cookie :: "nat \<Rightarrow> time"

text \<open>
  \<open>unmarshal\<close> decodes a line into \<open>serverData\<close>, the one variable of the connection: it takes the fields as
  they were after the line before. \<open>handle\<close> is the request handler, a step on the state \<open>'s\<close> of the
  program, of which \<open>db_of\<close> is the store.
\<close>

fun wss_serve :: "'db kvstore_api \<Rightarrow> block_json \<Rightarrow> wss \<Rightarrow> (string \<Rightarrow> server_data \<Rightarrow> server_data \<times> store_error option)
    \<Rightarrow> (request \<Rightarrow> 's \<Rightarrow> panic + 's) option \<Rightarrow> ('s \<Rightarrow> 'db) \<Rightarrow> (string \<times> line_clock) list \<Rightarrow> server_data \<Rightarrow> 's
    \<Rightarrow> panic + 's \<times> string list" where
  "wss_serve K J W unmarshal handle db_of [] sd s = Inr (s, [])"
| "wss_serve K J W unmarshal handle db_of ((line, ck) # rest) sd s =
     (case unmarshal line sd of
        (sd', Some err) \<Rightarrow>
          map_sum id (\<lambda>(s', out). (s', (wss_ok @ [char_of (10 :: nat)]) # out))
            (wss_serve K J W unmarshal handle db_of rest sd' s)
      | (sd', None) \<Rightarrow>
          (case (case handle of None \<Rightarrow> Inr s | Some f \<Rightarrow> f (socket_request (lc_request ck) sd') s) of
             Inl p \<Rightarrow> Inl p
           | Inr s1 \<Rightarrow>
               (case wss_decide K J W (lc_lookup ck) (lc_cookie ck) (db_of s1) (sd_ip sd') (sd_xff sd')
                       (sd_cookies sd') of
                  Inl p \<Rightarrow> Inl p
                | Inr decision \<Rightarrow>
                    map_sum id (\<lambda>(s', out). (s', (decision @ [char_of (10 :: nat)]) # out))
                      (wss_serve K J W unmarshal handle db_of rest sd' s1))))"

lemma private_cidrs_parse: "list_all (\<lambda>c. parse_cidr c \<noteq> None) private_cidrs"
  by (simp add: private_cidrs_def parse_cidr_eval)

section \<open>Lemmas on encryption\<close>

lemma wss_unpad_pad: "wss_unpad (wss_pad bs) = bs"
proof -
  define p where "p = 16 - length bs mod 16"
  have p: "0 < p" "p \<le> 16" by (simp_all add: p_def)
  then have u: "unat (of_nat p :: byte) = p" by (simp add: of_nat_inverse)
  have le: "\<not> (of_nat p :: byte) > 16" and nz: "(of_nat p :: byte) \<noteq> 0"
    using p u by (auto simp: word_less_nat_alt)
  have pad: "wss_pad bs = bs @ replicate p (of_nat p)" by (simp add: wss_pad_def p_def Let_def)
  have last: "(bs @ replicate p (of_nat p :: byte)) ! (length bs + p - 1) = of_nat p"
    using p by (auto simp: nth_append)
  have all: "list_all (\<lambda>i. (bs @ replicate p (of_nat p :: byte)) ! i = of_nat p) [length bs..<length bs + p]"
    by (auto simp: list_all_iff nth_append)
  show ?thesis
    unfolding pad wss_unpad_def Let_def
    using p last all u le nz by simp
qed

lemma length_wss_pad: "\<exists>n. length (wss_pad bs) = 16 * n"
proof -
  have "length bs mod 16 < 16" by simp
  then have "length (wss_pad bs) = 16 * (length bs div 16 + 1)"
    using div_mult_mod_eq [of "length bs" 16]
    unfolding wss_pad_def Let_def length_append length_replicate by arith
  then show ?thesis by blast
qed

lemma wss_round_trip:
  assumes "key_size_ok key" and "length iv = 16"
  shows "\<exists>data. wss_encrypt iv plaintext key = Some data \<and> wss_decrypt data key = Inr (Some plaintext)"
proof -
  define bs where "bs = blocks_of (wss_pad plaintext)"
  define cs where "cs = cbc_encrypt (aes_encrypt key) iv bs"
  have bs: "concat bs = wss_pad plaintext" "\<forall>b \<in> set bs. length b = 16"
    using length_wss_pad blocks_of_length unfolding bs_def by blast+
  with assms have cs: "\<forall>c \<in> set cs. length c = 16"
    unfolding cs_def by (intro aes.length_cbc_encrypt)
  have "wss_encrypt iv plaintext key = Some (iv @ concat cs)"
    using assms by (simp add: wss_encrypt_def cs_def bs_def)
  moreover have "wss_decrypt (iv @ concat cs) key = Inr (Some plaintext)"
    using assms cs bs aes.cbc_round_trip [of iv bs key]
    by (simp add: wss_decrypt_def Let_def length_concat_blocks blocks_of_concat wss_unpad_pad flip: cs_def)
  ultimately show ?thesis by blast
qed

section \<open>Lemmas on cookies and lookups\<close>

lemma scan_True_iff:
  "scan_cookies W now ips i cs = Inr True \<longleftrightarrow>
     (\<exists>j < length cs. (\<forall>k < j. captcha_cookie W (now (i + k)) ips (trim_space (cs ! k)) = Inr None) \<and>
        captcha_cookie W (now (i + j)) ips (trim_space (cs ! j)) = Inr (Some True))"
proof (induction cs arbitrary: i)
  case Nil
  then show ?case by simp
next
  case (Cons c cs)
  then show ?case
    by (auto simp: Ex_less_Suc2 All_less_Suc2 split: sum.splits option.splits)
qed

lemma scan_isl_iff:
  "isl (scan_cookies W now ips i cs) \<longleftrightarrow>
     (\<exists>j < length cs. (\<forall>k < j. captcha_cookie W (now (i + k)) ips (trim_space (cs ! k)) = Inr None) \<and>
        isl (captcha_cookie W (now (i + j)) ips (trim_space (cs ! j))))"
proof (induction cs arbitrary: i)
  case Nil
  then show ?case by simp
next
  case (Cons c cs)
  then show ?case
    by (auto simp: Ex_less_Suc2 All_less_Suc2 split: sum.splits option.splits)
qed

lemma wss_lookup_block: "wss_lookup K J now db ip = wss_block \<longleftrightarrow> \<not> isl (get_ip K J now db ip)"
  by (auto simp: wss_lookup_def wss_ok_def wss_block_def split: sum.splits)

lemma foldl_block:
  "foldl (\<lambda>decision (i, ip). if P i ip then wss_block else decision) d xs =
     (if \<exists>(i, ip) \<in> set xs. P i ip then wss_block else d)"
  by (induction xs arbitrary: d) auto

lemma lookups_eq:
  "lookups K J now db ips =
     (if \<exists>i < length ips. \<not> isl (get_ip K J (now i) db (ips ! i)) then wss_block else wss_ok)"
proof -
  have "(\<exists>(i, ip) \<in> set (List.enumerate 0 ips). P i ip) \<longleftrightarrow> (\<exists>i < length ips. P i (ips ! i))" for P
    by (force simp: in_set_enumerate_eq)
  then show ?thesis by (simp add: lookups_def foldl_block wss_lookup_block)
qed

lemma wss_block_ok [simp]: "wss_block \<noteq> wss_ok" "wss_ok \<noteq> wss_block"
  by (simp_all add: wss_block_def wss_ok_def)

lemma candidate_ips_not_Nil: "[] \<notin> set (candidate_ips W ip xff)"
  by (auto simp: candidate_ips_def)

lemma ip_map_Some:
  assumes "[] \<notin> set ips"
  shows "(case foldl (\<lambda>m ip. m(ip_string ip \<mapsto> ip)) Map.empty ips s of None \<Rightarrow> False | Some v \<Rightarrow> v \<noteq> []) \<longleftrightarrow>
    (\<exists>ip \<in> set ips. ip_string ip = s)"
  using assms
proof (induction ips rule: rev_induct)
  case Nil
  then show ?case by simp
next
  case (snoc ip ips)
  then show ?case by (auto split: option.splits if_splits)
qed

text \<open>What makes a cookie let its request pass, written out.\<close>

definition sealed_for :: "wss \<Rightarrow> time \<Rightarrow> ip list \<Rightarrow> byte list \<Rightarrow> bool" where
  "sealed_for W now ips bin \<longleftrightarrow>
     (\<exists>dec addrs stamp ts a ip. wss_decrypt bin (ws_cookie_key W) = Inr (Some dec) \<and>
        split_on (CHR ''|'') (str_of_bytes dec) = [cf_cookie_secret (ws_config W), addrs, stamp] \<and>
        parse_int64 stamp = Some ts \<and> now \<le> unix_time ts \<and>
        a \<in> set (split_on (CHR '','') addrs) \<and> ip \<in> set ips \<and> trim_space a = ip_string ip)"

definition cookie_value :: "string \<Rightarrow> byte list option" where
  "cookie_value value = b64_decode (case query_unescape value of None \<Rightarrow> [] | Some v \<Rightarrow> v)"

lemma cookie_content_True:
  assumes "[] \<notin> set ips"
  shows "cookie_content W now ips dec = Some True \<longleftrightarrow>
     (\<exists>addrs stamp ts a ip. split_on (CHR ''|'') dec = [cf_cookie_secret (ws_config W), addrs, stamp] \<and>
        parse_int64 stamp = Some ts \<and> now \<le> unix_time ts \<and>
        a \<in> set (split_on (CHR '','') addrs) \<and> ip \<in> set ips \<and> trim_space a = ip_string ip)"
  unfolding cookie_content_def Let_def ip_map_Some [OF assms] list_ex_iff
  by (auto split: list.splits option.splits if_splits simp: not_less) (metis+)?

lemma cookie_split:
  "prefix (n @ ''='') cookie \<and> takeWhile (\<lambda>c. c \<noteq> CHR ''='') cookie = n \<and>
      tl (dropWhile (\<lambda>c. c \<noteq> CHR ''='') cookie) = v \<longleftrightarrow>
   cookie = n @ ''='' @ v \<and> CHR ''='' \<notin> set n"
proof
  assume l: "prefix (n @ ''='') cookie \<and> takeWhile (\<lambda>c. c \<noteq> CHR ''='') cookie = n \<and>
    tl (dropWhile (\<lambda>c. c \<noteq> CHR ''='') cookie) = v"
  then obtain w where w: "cookie = n @ ''='' @ w" by (auto simp: prefix_def)
  have n: "CHR ''='' \<notin> set n" using l by (metis (mono_tags, lifting) set_takeWhileD)
  then have "dropWhile (\<lambda>c. c \<noteq> CHR ''='') n = []" by auto
  with w l n show "cookie = n @ ''='' @ v \<and> CHR ''='' \<notin> set n"
    by (auto simp: dropWhile_append)
next
  assume r: "cookie = n @ ''='' @ v \<and> CHR ''='' \<notin> set n"
  then have "dropWhile (\<lambda>c. c \<noteq> CHR ''='') n = []" "takeWhile (\<lambda>c. c \<noteq> CHR ''='') n = n"
    by (auto simp: takeWhile_eq_all_conv)
  with r show "prefix (n @ ''='') cookie \<and> takeWhile (\<lambda>c. c \<noteq> CHR ''='') cookie = n \<and>
      tl (dropWhile (\<lambda>c. c \<noteq> CHR ''='') cookie) = v"
    by (auto simp: dropWhile_append takeWhile_append)
qed

lemma captcha_cookie_unfold:
  "captcha_cookie W now ips cookie =
     (if \<nexists>v. cookie = cf_cookie_name (ws_config W) @ ''='' @ v \<and> CHR ''='' \<notin> set (cf_cookie_name (ws_config W)) then Inr None
      else if length (ws_cookie_key W) \<noteq> 32 then Inr (Some True)
      else case cookie_value (tl (dropWhile (\<lambda>c. c \<noteq> CHR ''='') cookie)) of
             None \<Rightarrow> Inr (Some False)
           | Some bin \<Rightarrow> (case wss_decrypt bin (ws_cookie_key W) of
                           Inl p \<Rightarrow> Inl p
                         | Inr None \<Rightarrow> Inr (Some False)
                         | Inr (Some dec) \<Rightarrow> Inr (cookie_content W now ips (str_of_bytes dec))))"
  using cookie_split [of "cf_cookie_name (ws_config W)" cookie]
  unfolding captcha_cookie_def Let_def cookie_value_def by (auto split: if_splits)

lemma captcha_cookie_named:
  assumes "CHR ''='' \<notin> set (cf_cookie_name (ws_config W))"
  shows "captcha_cookie W now ips (cf_cookie_name (ws_config W) @ ''='' @ v) =
     (if length (ws_cookie_key W) \<noteq> 32 then Inr (Some True)
      else case cookie_value v of
             None \<Rightarrow> Inr (Some False)
           | Some bin \<Rightarrow> (case wss_decrypt bin (ws_cookie_key W) of
                           Inl p \<Rightarrow> Inl p
                         | Inr None \<Rightarrow> Inr (Some False)
                         | Inr (Some dec) \<Rightarrow> Inr (cookie_content W now ips (str_of_bytes dec))))"
proof -
  have "tl (dropWhile (\<lambda>c. c \<noteq> CHR ''='') (cf_cookie_name (ws_config W) @ ''='' @ v)) = v"
    using cookie_split [of "cf_cookie_name (ws_config W)" "cf_cookie_name (ws_config W) @ ''='' @ v" v] assms by blast
  with assms show ?thesis unfolding captcha_cookie_unfold by simp
qed

lemma captcha_cookie_other:
  assumes "\<nexists>v. cookie = cf_cookie_name (ws_config W) @ ''='' @ v \<and> CHR ''='' \<notin> set (cf_cookie_name (ws_config W))"
  shows "captcha_cookie W now ips cookie = Inr None"
  using assms unfolding captcha_cookie_unfold by simp

lemma captcha_cookie_True:
  assumes "[] \<notin> set ips"
  shows "captcha_cookie W now ips cookie = Inr (Some True) \<longleftrightarrow>
     (\<exists>v. cookie = cf_cookie_name (ws_config W) @ ''='' @ v \<and> CHR ''='' \<notin> set (cf_cookie_name (ws_config W)) \<and>
        (length (ws_cookie_key W) = 32 \<longrightarrow> (\<exists>bin. cookie_value v = Some bin \<and> sealed_for W now ips bin)))"
proof (cases "\<exists>v. cookie = cf_cookie_name (ws_config W) @ ''='' @ v \<and> CHR ''='' \<notin> set (cf_cookie_name (ws_config W))")
  case False
  then show ?thesis using captcha_cookie_other by fastforce
next
  case True
  then obtain v where v: "cookie = cf_cookie_name (ws_config W) @ ''='' @ v"
    and n: "CHR ''='' \<notin> set (cf_cookie_name (ws_config W))" by blast
  show ?thesis
    unfolding v captcha_cookie_named [OF n]
    by (auto simp: n sealed_for_def cookie_content_True [OF assms] split: option.splits sum.splits)
qed

lemma captcha_cookie_isl:
  "isl (captcha_cookie W now ips cookie) \<longleftrightarrow>
     (\<exists>v bin. cookie = cf_cookie_name (ws_config W) @ ''='' @ v \<and> CHR ''='' \<notin> set (cf_cookie_name (ws_config W)) \<and>
        length (ws_cookie_key W) = 32 \<and> cookie_value v = Some bin \<and>
        (length bin < 16 \<or> length bin mod 16 \<noteq> 0))"
proof (cases "\<exists>v. cookie = cf_cookie_name (ws_config W) @ ''='' @ v \<and> CHR ''='' \<notin> set (cf_cookie_name (ws_config W))")
  case False
  then show ?thesis using captcha_cookie_other by fastforce
next
  case True
  then obtain v where v: "cookie = cf_cookie_name (ws_config W) @ ''='' @ v"
    and n: "CHR ''='' \<notin> set (cf_cookie_name (ws_config W))" by blast
  have *: "isl (wss_decrypt bin key) \<longleftrightarrow> length bin < 16 \<or> length bin mod 16 \<noteq> 0" if "length key = 32" for bin key
    using that le_mod_geq [of 16 "length bin"] by (auto simp: wss_decrypt_def key_size_ok_def Let_def)
  have "isl (captcha_cookie W now ips cookie) \<longleftrightarrow> length (ws_cookie_key W) = 32 \<and>
      (\<exists>bin. cookie_value v = Some bin \<and> isl (wss_decrypt bin (ws_cookie_key W)))"
    unfolding v captcha_cookie_named [OF n] by (auto split: option.splits sum.splits)
  with * show ?thesis using v n by auto
qed

text \<open>The cookie that the captcha service issues for an address and a time stamp.\<close>

definition bytes_of_str :: "string \<Rightarrow> byte list" where
  "bytes_of_str s = map (\<lambda>c. of_nat (of_char c)) s"

definition captcha_plain :: "wss \<Rightarrow> ip \<Rightarrow> int \<Rightarrow> string" where
  "captcha_plain W ip ts = cf_cookie_secret (ws_config W) @ ''|'' @ ip_string ip @ ''|'' @ show_int ts"

definition issued_cookie :: "wss \<Rightarrow> byte list \<Rightarrow> ip \<Rightarrow> int \<Rightarrow> string" where
  "issued_cookie W iv ip ts = cf_cookie_name (ws_config W) @ ''='' @
     query_escape (b64_encode (the (wss_encrypt iv (bytes_of_str (captcha_plain W ip ts)) (ws_cookie_key W))))"

lemma str_of_bytes_of_str [simp]: "str_of_bytes (bytes_of_str s) = s"
proof -
  have "char_of (unat (of_nat (of_char c) :: byte)) = c" for c :: char
  proof -
    have "(of_char c :: nat) < 256" by (metis of_char_mod_256 mod_less_divisor zero_less_numeral)
    then show ?thesis by (simp add: of_nat_inverse)
  qed
  then show ?thesis by (simp add: str_of_bytes_def bytes_of_str_def comp_def)
qed

definition plain_char :: "char \<Rightarrow> bool" where
  "plain_char c \<longleftrightarrow> \<not> is_space c \<and> c \<noteq> CHR '';''"

lemma is_word_plain: "is_word c \<Longrightarrow> plain_char c \<and> c \<noteq> CHR ''=''"
  by (auto simp: is_word_def is_space_def plain_char_def less_eq_char_def)

lemma plain_lits: "list_all plain_char ''-.~+%=''"
  by code_simp

lemma hex_digit_plain: "n < 16 \<Longrightarrow> plain_char (hex_digit n)"
  by (auto simp: plain_char_def hex_digit_def is_space_def of_char_of dest: arg_cong [where f = "of_char :: char \<Rightarrow> nat"])

lemma query_escape_plain: "list_all plain_char (query_escape s)"
  unfolding list_all_iff
proof
  fix c assume "c \<in> set (query_escape s)"
  from set_query_escape [OF this] show "plain_char c"
    using plain_lits is_word_plain hex_digit_plain by (auto simp: unreserved_def)
qed

lemma issued_cookie_plain:
  "list_all is_word (cf_cookie_name (ws_config W)) \<Longrightarrow> list_all plain_char (issued_cookie W iv ip ts)"
  using plain_lits is_word_plain query_escape_plain by (auto simp: issued_cookie_def list_all_iff)

lemma addr_char_not: "\<not> addr_char (CHR ''|'')" "\<not> addr_char (CHR '','')" "addr_char c \<Longrightarrow> \<not> is_space c"
  by (auto simp: addr_char_def is_space_def Let_def)

lemma issued_cookie_opens:
  assumes name: "list_all is_word (cf_cookie_name (ws_config W))" and key: "length (ws_cookie_key W) = 32"
    and iv: "length iv = 16" and secret: "CHR ''|'' \<notin> set (cf_cookie_secret (ws_config W))"
    and ips: "ip \<in> set ips" "[] \<notin> set ips" and ts: "0 \<le> ts" "ts < 2 ^ 62" "now \<le> unix_sec ts"
  shows "captcha_cookie W now ips (issued_cookie W iv ip ts) = Inr (Some True)"
proof -
  obtain data where data: "wss_encrypt iv (bytes_of_str (captcha_plain W ip ts)) (ws_cookie_key W) = Some data"
    "wss_decrypt data (ws_cookie_key W) = Inr (Some (bytes_of_str (captcha_plain W ip ts)))"
    using wss_round_trip [of "ws_cookie_key W" iv] key iv by (fastforce simp: key_size_ok_def)
  have ip: "CHR ''|'' \<notin> set (ip_string ip)" "CHR '','' \<notin> set (ip_string ip)" "trim_space (ip_string ip) = ip_string ip"
    using ip_string_chars [of ip] addr_char_not by (auto simp: list_all_iff intro!: trim_space_id)
  have "CHR ''|'' \<notin> set (show_int ts)"
    using ts digits_no_char [of "CHR ''|''"] by (simp add: show_int_def is_digit_def)
  then have split: "split_on (CHR ''|'') (captcha_plain W ip ts) = [cf_cookie_secret (ws_config W), ip_string ip, show_int ts]"
    using secret ip by (simp add: captcha_plain_def split_on_append split_on_id)
  have "unix_time ts = unix_sec ts"
    using ts by (simp add: unix_time_def i64_def)
  then have "sealed_for W now ips data"
    unfolding sealed_for_def
    using data(2) split ts ip ips parse_int64_show [of ts] by (fastforce simp: split_on_id)
  moreover have "CHR ''='' \<notin> set (cf_cookie_name (ws_config W))"
    using name is_word_plain by (auto simp: list_all_iff)
  ultimately show ?thesis
    unfolding captcha_cookie_True [OF ips(2)] using data(1) key
    by (auto simp: issued_cookie_def cookie_value_def)
qed

lemma wss_decide_answer: "wss_decide K J W now now' db ip xff cookies = Inr d \<Longrightarrow> d \<in> {wss_ok, wss_block}"
  by (auto simp: wss_decide_def lookups_eq Let_def split: sum.splits if_splits)

text \<open>A connection that is served to its end answers every line, in order, with one of two lines.\<close>

lemma wss_serve_answers:
  "wss_serve K J W unmarshal handle db_of lines sd s = Inr (s', out) \<Longrightarrow>
     length out = length lines \<and> set out \<subseteq> {wss_ok @ [char_of (10 :: nat)], wss_block @ [char_of (10 :: nat)]}"
proof (induction K J W unmarshal handle db_of lines sd s arbitrary: s' out rule: wss_serve.induct)
  case (1 K J W unmarshal handle db_of sd s)
  then show ?case by simp
next
  case (2 K J W unmarshal handle db_of line ck rest sd s)
  obtain sd' err where u: "unmarshal line sd = (sd', err)" by force
  show ?case
  proof (cases err)
    case (Some e)
    with 2(2) [OF u [symmetric] Some] 2(3) u show ?thesis
      by (cases "wss_serve K J W unmarshal handle db_of rest sd' s") auto
  next
    case None
    with 2(3) u obtain s1 d where s1: "(case handle of None \<Rightarrow> Inr s | Some f \<Rightarrow> f (socket_request (lc_request ck) sd') s) = Inr s1"
      and d: "wss_decide K J W (lc_lookup ck) (lc_cookie ck) (db_of s1) (sd_ip sd') (sd_xff sd') (sd_cookies sd') = Inr d"
      by (auto split: sum.splits)
    from 2(1) [OF u [symmetric] None s1 d] 2(3) u None s1 d wss_decide_answer [OF d] show ?thesis
      by (cases "wss_serve K J W unmarshal handle db_of rest sd' s1") auto
  qed
qed

section \<open>Properties\<close>

text \<open>
  C9: What the socket encrypts it decrypts: padding, chaining and the cipher are inverted, for every key
  of a length that AES accepts, every vector and every text.
\<close>

theorem decrypt_encrypt:
  assumes "key_size_ok key" and "length iv = 16"
  shows "\<exists>data. wss_encrypt iv plaintext key = Some data \<and> wss_decrypt data key = Inr (Some plaintext)"
  by (rule wss_round_trip [OF assms])

text \<open>
  C7: When the socket lets a request pass: no address of the request is blocked, or a cookie of the
  configured name, all cookies before it being of no account, opens: it decrypts to the configured secret,
  one of the request's addresses and a time that has not passed. With a key of the wrong length every
  cookie of that name opens.
\<close>

theorem decide_ok_iff:
  "wss_decide K J W now now' db ip xff cookies = Inr wss_ok \<longleftrightarrow>
     (let ips = candidate_ips W ip xff; cs = map trim_space (split_on (CHR '';'') cookies)
      in (\<nexists>i. i < length ips \<and> \<not> isl (get_ip K J (now i) db (ips ! i))) \<or>
         (\<exists>j < length cs. (\<forall>k < j. captcha_cookie W (now' k) ips (cs ! k) = Inr None) \<and>
            (\<exists>v. cs ! j = cf_cookie_name (ws_config W) @ ''='' @ v \<and> CHR ''='' \<notin> set (cf_cookie_name (ws_config W)) \<and>
               (length (ws_cookie_key W) = 32 \<longrightarrow>
                  (\<exists>bin. cookie_value v = Some bin \<and> sealed_for W (now' j) ips bin)))))"
proof -
  let ?ips = "candidate_ips W ip xff"
  let ?cs = "split_on (CHR '';'') cookies"
  have "has_valid_captcha_cookie W now' cookies ?ips = Inr True \<longleftrightarrow>
      (\<exists>j < length ?cs. (\<forall>k < j. captcha_cookie W (now' k) ?ips (map trim_space ?cs ! k) = Inr None) \<and>
         captcha_cookie W (now' j) ?ips (map trim_space ?cs ! j) = Inr (Some True))"
    unfolding has_valid_captcha_cookie_def scan_True_iff by (rule iff_exI) auto
  then show ?thesis
    unfolding captcha_cookie_True [OF candidate_ips_not_Nil] Let_def length_map
    by (auto simp: wss_decide_def lookups_eq Let_def split: sum.splits)
qed

text \<open>
  C6: Deciding crashes the program exactly when an address of the request is blocked and a cookie of the
  configured name, reached before any other decides, decodes to fewer than 16 bytes or to a number of bytes
  that is not a multiple of 16. So a blocked client brings the program down by sending such a cookie.
\<close>

theorem decide_panics_iff:
  "isl (wss_decide K J W now now' db ip xff cookies) \<longleftrightarrow>
     (let ips = candidate_ips W ip xff; cs = map trim_space (split_on (CHR '';'') cookies)
      in (\<exists>i < length ips. \<not> isl (get_ip K J (now i) db (ips ! i))) \<and>
         (\<exists>j < length cs. (\<forall>k < j. captcha_cookie W (now' k) ips (cs ! k) = Inr None) \<and>
            (\<exists>v bin. cs ! j = cf_cookie_name (ws_config W) @ ''='' @ v \<and> CHR ''='' \<notin> set (cf_cookie_name (ws_config W)) \<and>
               length (ws_cookie_key W) = 32 \<and> cookie_value v = Some bin \<and>
               (length bin < 16 \<or> length bin mod 16 \<noteq> 0))))"
proof -
  let ?ips = "candidate_ips W ip xff"
  let ?cs = "split_on (CHR '';'') cookies"
  have "isl (has_valid_captcha_cookie W now' cookies ?ips) \<longleftrightarrow>
      (\<exists>j < length ?cs. (\<forall>k < j. captcha_cookie W (now' k) ?ips (map trim_space ?cs ! k) = Inr None) \<and>
         isl (captcha_cookie W (now' j) ?ips (map trim_space ?cs ! j)))"
    unfolding has_valid_captcha_cookie_def scan_isl_iff by (rule iff_exI) auto
  then show ?thesis
    unfolding captcha_cookie_isl Let_def length_map
    by (auto simp: wss_decide_def lookups_eq Let_def split: sum.splits)
qed

text \<open>
  C8: A solved captcha counts: the cookie issued for one of the addresses of a request, encrypted under the
  configured key and escaped, lets the request pass until the time it names, blocked or not.
\<close>

theorem captcha_lets_pass:
  assumes "list_all is_word (cf_cookie_name (ws_config W))" and "length (ws_cookie_key W) = 32"
    and "length iv = 16" and "CHR ''|'' \<notin> set (cf_cookie_secret (ws_config W))"
    and "a \<in> set (candidate_ips W ip xff)" and "0 \<le> ts" and "ts < 2 ^ 62" and "now' 0 \<le> unix_sec ts"
  shows "wss_decide K J W now now' db ip xff (issued_cookie W iv a ts) = Inr wss_ok"
proof -
  have plain: "list_all plain_char (issued_cookie W iv a ts)" using assms(1) by (rule issued_cookie_plain)
  then have "split_on (CHR '';'') (issued_cookie W iv a ts) = [issued_cookie W iv a ts]"
    by (intro split_on_id) (auto simp: list_all_iff plain_char_def)
  moreover have "trim_space (issued_cookie W iv a ts) = issued_cookie W iv a ts"
    using plain by (intro trim_space_id) (auto simp: list_all_iff plain_char_def)
  ultimately have "has_valid_captcha_cookie W now' (issued_cookie W iv a ts) (candidate_ips W ip xff) = Inr True"
    using issued_cookie_opens [OF assms(1-5) candidate_ips_not_Nil assms(6-8)]
    by (simp add: has_valid_captcha_cookie_def)
  then show ?thesis by (auto simp: wss_decide_def Let_def lookups_eq)
qed

section \<open>Witnesses\<close>

definition wit_wss :: wss where
  "wit_wss = \<lparr>ws_private = [], ws_cookie_key = replicate 32 0, ws_config = wit_cfg\<rparr>"

lemma decrypt_encrypt_witness:
  "\<exists>data. wss_encrypt (replicate 16 1) [104, 105] (replicate 32 0) = Some data \<and>
     wss_decrypt data (replicate 32 0) = Inr (Some [104, 105])"
  by (rule decrypt_encrypt) (simp_all add: key_size_ok_def)

lemma wit_candidates: "candidate_ips wit_wss (ip_string wit_ip) [] = [wit_ip]"
proof -
  have "parse_ip (ip_string wit_ip) = wit_ip"
    using parse_ip_string_v4 [of wit_ip] by (simp add: wit_ip_def)
  then show ?thesis
    by (simp add: candidate_ips_def wss_parse_ip_def trim_space_def parse_ip_def parse_addr_def ip_to16_def wit_ip_def
        v4_prefix_def)
qed

lemma wit_blocked_ip: "\<not> isl (get_ip mem_kv num_block_json (6 * second) wit_db wit_ip)"
  by (rule get_ip_marshalled [OF num_block.block_codec_axioms TrueI wit_marshal])
    (simp add: wit_db_def mem_simps second_def)

lemma decide_ok_iff_witness:
  "wss_decide mem_kv num_block_json wit_wss (\<lambda>_. 6 * second) (\<lambda>_. 6 * second) wit_db [] [] [] = Inr wss_ok \<and>
   wss_decide mem_kv num_block_json wit_wss (\<lambda>_. 6 * second) (\<lambda>_. 6 * second) wit_db (ip_string wit_ip) [] []
     \<noteq> Inr wss_ok"
proof -
  have none: "candidate_ips wit_wss [] [] = []"
    by (simp add: candidate_ips_def wss_parse_ip_def trim_space_def parse_ip_def parse_addr_def ip_to16_def)
  show ?thesis
    unfolding decide_ok_iff wit_candidates none
    by (simp add: wit_blocked_ip trim_space_def wit_wss_def wit_cfg_def)
qed

lemma decide_panics_iff_witness:
  "isl (wss_decide mem_kv num_block_json wit_wss (\<lambda>_. 6 * second) (\<lambda>_. 6 * second) wit_db (ip_string wit_ip) [] ''id='')"
proof -
  have "split_on (CHR '';'') ''id='' = [''id='']" "trim_space ''id='' = ''id''@''=''@[]"
    by (simp_all add: trim_space_def is_space_def)
  then show ?thesis
    unfolding decide_panics_iff wit_candidates
    by (simp add: wit_blocked_ip wit_wss_def wit_cfg_def cookie_value_def b64_decode_def)
qed

lemma captcha_lets_pass_witness:
  "wss_decide mem_kv num_block_json wit_wss (\<lambda>_. 6 * second) (\<lambda>_. 6 * second) wit_db (ip_string wit_ip) []
     (issued_cookie wit_wss (replicate 16 1) wit_ip 7) = Inr wss_ok"
proof (rule captcha_lets_pass)
  show "list_all is_word (cf_cookie_name (ws_config wit_wss))"
    by (simp add: wit_wss_def wit_cfg_def is_word_def less_eq_char_def)
  show "wit_ip \<in> set (candidate_ips wit_wss (ip_string wit_ip) [])"
    by (simp add: wit_candidates)
qed (simp_all add: wit_wss_def wit_cfg_def unix_sec_def second_def)

end
