(* ===== verification/Options.thy ===== *)
theory Options
  imports Startup WebserverSocket
begin

text \<open>
  \<^verbatim>\<open>cmd/botex/main.go\<close>: the options of the program and their default values, and what the defaults mean for
  the other components. The options the components do not read extend the record \<open>config\<close>.
\<close>

section \<open>The options\<close>

record options = config +
  op_dns_server :: string
  op_badger_path :: string
  op_nats_addr :: string
  op_nats_port :: int
  op_nats_http_port :: int
  op_nats_user :: string
  op_nats_password :: string
  op_nats_ca :: string
  op_nats_cert :: string
  op_nats_key :: string
  op_geoip_db_file :: string
  op_asn_db_file :: string
  op_resolver_workers :: int
  op_log_level :: string
  op_log_replay :: string
  op_log_format :: string
  op_log_anonymize :: bool
  op_api_address :: string
  op_log_memory_stats :: bool
  op_whitelist_toml :: string
  op_with_networks :: bool
  op_clear_blocked :: bool
  op_socket_file :: string
  op_websocket_ingest :: bool

definition minute :: duration where "minute = 60 * second"
definition hour :: duration where "hour = 60 * minute"

text \<open>\<open>0.8\<close> is rounded to the nearest \<open>float64\<close>.\<close>

definition default_options :: options where
  "default_options =
     \<lparr>cf_window_size = minute, cf_num_windows = 60, cf_keep_requests = 50, cf_resolver_tries = 5,
      cf_resolver_ttl = 3 * 30 * 24 * hour, cf_block_ttl = 3 * hour, cf_max_ratio = Fin (fl (4 / 5)),
      cf_min_app = 10, cf_max_app = 50, cf_ignore_private_ips = True, cf_cookie_name = ''scw'',
      cf_cookie_key = [], cf_cookie_secret = [], op_dns_server = ''8.8.8.8:53'', op_badger_path = ''./badger'',
      op_nats_addr = ''0.0.0.0'', op_nats_port = 4223, op_nats_http_port = 8889, op_nats_user = ''scw'',
      op_nats_password = ''scw'', op_nats_ca = [], op_nats_cert = [], op_nats_key = [],
      op_geoip_db_file = ''./maxmind/geoip-2021-03-02.tar.gz'',
      op_asn_db_file = ''./maxmind/asndb-2021-03-02.zip'', op_resolver_workers = 30, op_log_level = ''error'',
      op_log_replay = [],
      op_log_format = ''$remote_addr - $remote_user [$time_local] \"$request\" $status $body_bytes_sent \"$http_referer\" \"$http_user_agent\"'',
      op_log_anonymize = False, op_api_address = ''127.0.0.1:4343'', op_log_memory_stats = False,
      op_whitelist_toml = ''./etc/whitelist.toml'', op_with_networks = False, op_clear_blocked = False,
      op_socket_file = [], op_websocket_ingest = False\<rparr>"

definition default_cfg :: config where
  "default_cfg = config.truncate default_options"

section \<open>What the defaults mean\<close>

lemma default_cfg_eq:
  "default_cfg = \<lparr>cf_window_size = 60000000000, cf_num_windows = 60, cf_keep_requests = 50, cf_resolver_tries = 5,
     cf_resolver_ttl = 7776000000000000, cf_block_ttl = 10800000000000, cf_max_ratio = Fin (fl (4 / 5)),
     cf_min_app = 10, cf_max_app = 50, cf_ignore_private_ips = True, cf_cookie_name = ''scw'',
     cf_cookie_key = [], cf_cookie_secret = []\<rparr>"
  by (simp add: default_cfg_def default_options_def config.defs minute_def hour_def second_def)

text \<open>Without further options there is no socket: the web servers are told nothing.\<close>

lemma default_no_socket: "\<not> wss_enabled default_cfg (op_socket_file default_options)"
  by (simp add: wss_enabled_def default_options_def)

lemma default_ratio: "fl (4 / 5) = 3602879701896397 / 4503599627370496"
  by code_simp

text \<open>
  Who is blocked by default: an address with 51 app requests in the last hour, or with 11 of which at least
  four fifths are app requests. \<open>0.8\<close> is no \<open>float64\<close>, but a quotient of four fifths is rounded in the same
  way, so it is not below the limit.
\<close>

lemma default_verdict:
  "block_verdict default_cfg [] d \<noteq> None \<longleftrightarrow>
     50 < id_app d \<or> 10 < id_app d \<and> Fin (3602879701896397 / 4503599627370496) \<le> id_ratio d"
  by (simp add: block_verdict_def default_cfg_eq default_ratio)

lemma default_four_of_five:
  assumes "0 < k" and "k < 2 ^ 50"
  shows "cf_max_ratio default_cfg \<le> ratio_of (4 * k) (5 * k)"
  using assms ratio_of_exact [of "4 * k" "5 * k"] by (simp add: default_cfg_eq)

text \<open>The defaults meet what other theorems ask of a configuration.\<close>

lemma default_cfg_ok:
  "0 < cf_window_size default_cfg" "0 < cf_num_windows default_cfg" "0 \<le> cf_block_ttl default_cfg"
  "0 < cf_keep_requests default_cfg" "cf_resolver_tries default_cfg < 2 ^ 63 - 1"
  "in64 (cf_window_size default_cfg * cf_num_windows default_cfg)"
  by (simp_all add: default_cfg_eq in64_def)

section \<open>What the options start\<close>

text \<open>
  The plugins of \<open>New\<close>, in the order of the calls of \<open>Use\<close>: the networks plugin, whose verdict is
  \<open>networks\<close>, if it is wanted, then the one for addresses' data. The latter has no say.
\<close>

definition new_plugins :: "options \<Rightarrow> plugin_decision \<Rightarrow> plugin_decision list" where
  "new_plugins opts networks = (if op_with_networks opts then [networks] else []) @ [ipmeta_should_be_blocked]"

lemma new_plugins_verdict:
  "plugin_verdict (new_plugins opts networks) st =
     (if op_with_networks opts \<and> fst (networks st) then Some (snd (networks st)) else None)"
  by (simp add: new_plugins_def ipmeta_should_be_blocked_def split: prod.split)

lemma default_plugins_verdict: "plugin_verdict (new_plugins default_options networks) st = None"
  by (simp add: new_plugins_verdict) (simp add: default_options_def)

text \<open>\<open>StartWorkers\<close> of the resolver: the number of goroutines it starts, once.\<close>

definition start_workers :: "options \<Rightarrow> bool \<Rightarrow> string + int" where
  "start_workers opts started =
     (if started then Inl ''workers have already been started'' else Inr (max 0 (op_resolver_workers opts)))"

text \<open>\<open>natsAuth.Check\<close>: who may connect to the NATS server.\<close>

definition nats_auth_check :: "options \<Rightarrow> string \<Rightarrow> string \<Rightarrow> bool" where
  "nats_auth_check opts username password \<longleftrightarrow> username = op_nats_user opts \<and> password = op_nats_password opts"

end
