(* ===== verification/Channels.thy ===== *)
theory Channels
  imports Prelude "HOL-Library.Multiset_Order" "HOL-Library.Sublist"
begin

text \<open>
  Goroutines that talk over bounded channels and share one mutex: how they can block each other. The state
  says what every goroutine has still to do before it waits for work again, how many messages every channel
  holds, and who holds the mutex. The messages and the data are left out here; the theories of the components
  have them. \<open>Goroutines\<close> gives the network of the program.
\<close>

section \<open>Networks and their steps\<close>

text \<open>
  What can block a goroutine: sending, and taking the mutex. \<open>Pass\<close> is a critical section without an operation
  that can block, \<open>Take\<close> and \<open>Leave\<close> enclose one that has such operations. \<open>Offer\<close> is a send with a default
  branch: a full channel drops the message.
\<close>

datatype 'c action = Send 'c | Offer 'c | Pass | Take | Leave

text \<open>
  A network: the capacities, who receives from a channel, what a receiver may have to do for a message,
  and what a goroutine may start by itself.
\<close>

record ('g, 'c) net =
  nt_cap :: "'c \<Rightarrow> nat"
  nt_receivers :: "'c \<Rightarrow> 'g set"
  nt_job :: "'c \<Rightarrow> 'c action list set"
  nt_start :: "'g \<Rightarrow> 'c action list set"

record ('g, 'c) net_state =
  ns_todo :: "'g \<Rightarrow> 'c action list"
  ns_queue :: "'c \<Rightarrow> nat"
  ns_holder :: "'g option"

definition all_idle :: "('g, 'c) net_state" where
  "all_idle = \<lparr>ns_todo = (\<lambda>g. []), ns_queue = (\<lambda>c. 0), ns_holder = None\<rparr>"

text \<open>
  The steps of goroutines that are at work or have work waiting for them. A send on a channel without a buffer
  needs a receiver that waits.
\<close>

inductive net_step :: "('g, 'c) net \<Rightarrow> ('g, 'c) net_state \<Rightarrow> ('g, 'c) net_state \<Rightarrow> bool" for N :: "('g, 'c) net" where
  send: "ns_todo s g = Send c # w \<Longrightarrow> ns_queue s c < nt_cap N c \<Longrightarrow>
    net_step N s (s\<lparr>ns_todo := (ns_todo s)(g := w), ns_queue := (ns_queue s)(c := Suc (ns_queue s c))\<rparr>)"
| hand_over: "ns_todo s g = Send c # w \<Longrightarrow> nt_cap N c = 0 \<Longrightarrow> r \<in> nt_receivers N c \<Longrightarrow> ns_todo s r = [] \<Longrightarrow>
    job \<in> nt_job N c \<Longrightarrow> net_step N s (s\<lparr>ns_todo := (ns_todo s)(g := w, r := job)\<rparr>)"
| receive: "ns_queue s c = Suc n \<Longrightarrow> r \<in> nt_receivers N c \<Longrightarrow> ns_todo s r = [] \<Longrightarrow> job \<in> nt_job N c \<Longrightarrow>
    net_step N s (s\<lparr>ns_todo := (ns_todo s)(r := job), ns_queue := (ns_queue s)(c := n)\<rparr>)"
| offer: "ns_todo s g = Offer c # w \<Longrightarrow>
    net_step N s (s\<lparr>ns_todo := (ns_todo s)(g := w),
      ns_queue := (ns_queue s)(c := (if ns_queue s c < nt_cap N c then Suc (ns_queue s c) else ns_queue s c))\<rparr>)"
| pass: "ns_todo s g = Pass # w \<Longrightarrow> ns_holder s = None \<Longrightarrow> net_step N s (s\<lparr>ns_todo := (ns_todo s)(g := w)\<rparr>)"
| take: "ns_todo s g = Take # w \<Longrightarrow> ns_holder s = None \<Longrightarrow>
    net_step N s (s\<lparr>ns_todo := (ns_todo s)(g := w), ns_holder := Some g\<rparr>)"
| leave: "ns_todo s g = Leave # w \<Longrightarrow> net_step N s (s\<lparr>ns_todo := (ns_todo s)(g := w), ns_holder := None\<rparr>)"

text \<open>A goroutine that waits may start work by itself: a timer, a request, a message from outside.\<close>

inductive net_event :: "('g, 'c) net \<Rightarrow> ('g, 'c) net_state \<Rightarrow> ('g, 'c) net_state \<Rightarrow> bool" for N :: "('g, 'c) net" where
  start: "ns_todo s g = [] \<Longrightarrow> job \<in> nt_start N g \<Longrightarrow> net_event N s (s\<lparr>ns_todo := (ns_todo s)(g := job)\<rparr>)"

definition net_move :: "('g, 'c) net \<Rightarrow> ('g, 'c) net_state \<Rightarrow> ('g, 'c) net_state \<Rightarrow> bool" where
  "net_move N s s' \<longleftrightarrow> net_step N s s' \<or> net_event N s s'"

definition jobs_of :: "('g, 'c) net \<Rightarrow> 'g \<Rightarrow> 'c action list set" where
  "jobs_of N g = nt_start N g \<union> (\<Union>c \<in> {c. g \<in> nt_receivers N c}. nt_job N c)"

section \<open>Layered networks\<close>

text \<open>
  The contract that excludes deadlocks: every channel has a rank and every goroutine a level, the receivers of a
  channel have its rank as their level, and a goroutine sends only on channels of a rank below its level. One
  goroutine only keeps the mutex while it sends, and those that wait for the mutex are on a higher level.
\<close>

locale layered_net =
  fixes N :: "('g, 'c) net" and rank :: "'c \<Rightarrow> nat" and level :: "'g \<Rightarrow> nat" and keeper :: 'g
  assumes receiver: "nt_receivers N c \<noteq> {}"
    and receiver_level: "r \<in> nt_receivers N c \<Longrightarrow> level r = rank c"
    and job: "nt_job N c \<noteq> {}"
    and sends_down: "w \<in> jobs_of N g \<Longrightarrow> Send c \<in> set w \<or> Offer c \<in> set w \<Longrightarrow> rank c < level g"
    and passes_above: "w \<in> jobs_of N g \<Longrightarrow> Pass \<in> set w \<Longrightarrow> g = keeper \<or> level keeper < level g"
    and keeper_level: "0 < level keeper"
    and keeps: "w \<in> jobs_of N g \<Longrightarrow> Take \<in> set w \<or> Leave \<in> set w \<Longrightarrow>
      g = keeper \<and> (\<exists>cs. w = Take # map Send cs @ [Leave])"
begin

definition net_ok :: "('g, 'c) net_state \<Rightarrow> bool" where
  "net_ok s \<longleftrightarrow> (\<forall>g. ns_todo s g \<noteq> [] \<longrightarrow> (\<exists>w \<in> jobs_of N g. suffix (ns_todo s g) w)) \<and>
     (\<forall>h. ns_holder s = Some h \<longrightarrow> h = keeper \<and> (\<exists>cs. ns_todo s h = map Send cs @ [Leave])) \<and>
     finite {g. ns_todo s g \<noteq> []} \<and> finite {c. ns_queue s c \<noteq> 0}"

lemma net_ok_idle: "net_ok all_idle"
  by (simp add: net_ok_def all_idle_def)

lemma todo_job:
  assumes "net_ok s" and "a \<in> set (ns_todo s g)"
  obtains w where "w \<in> jobs_of N g" and "suffix (ns_todo s g) w" and "a \<in> set w"
proof -
  from assms obtain w where "w \<in> jobs_of N g" and "suffix (ns_todo s g) w"
    by (cases "ns_todo s g = []") (auto simp: net_ok_def)
  with assms(2) that show thesis using set_mono_suffix by blast
qed

lemma todo_sends_down: "net_ok s \<Longrightarrow> Send c \<in> set (ns_todo s g) \<or> Offer c \<in> set (ns_todo s g) \<Longrightarrow> rank c < level g"
  using sends_down todo_job by metis

lemma todo_passes_above: "net_ok s \<Longrightarrow> Pass \<in> set (ns_todo s g) \<Longrightarrow> g = keeper \<or> level keeper < level g"
  using passes_above todo_job by metis

lemma todo_take:
  assumes "net_ok s" and "ns_todo s g = Take # w"
  shows "g = keeper \<and> (\<exists>cs. w = map Send cs @ [Leave])"
proof -
  obtain v where v: "v \<in> jobs_of N g" "suffix (Take # w) v" "Take \<in> set v"
    using todo_job [OF assms(1), of Take g] assms(2) by auto
  then obtain cs where "g = keeper" and cs: "v = Take # map Send cs @ [Leave]"
    using keeps by blast
  moreover have "w = map Send cs @ [Leave]"
    using v(2) unfolding cs by (auto simp: suffix_def Cons_eq_append_conv append_eq_map_conv append_eq_append_conv2
        map_eq_append_conv map_eq_Cons_conv append_eq_Cons_conv)
  ultimately show ?thesis by blast
qed

text \<open>The parts of \<open>net_ok\<close> for a goroutine that goes on or takes a job, whatever the channels do.\<close>

definition todo_ok :: "('g \<Rightarrow> 'c action list) \<Rightarrow> bool" where
  "todo_ok f \<longleftrightarrow> (\<forall>g. f g \<noteq> [] \<longrightarrow> (\<exists>w \<in> jobs_of N g. suffix (f g) w)) \<and> finite {g. f g \<noteq> []}"

lemma todo_ok_upd:
  assumes "todo_ok f" and "w \<noteq> [] \<Longrightarrow> \<exists>v \<in> jobs_of N g. suffix w v"
  shows "todo_ok (f(g := w))"
proof -
  have "{x. (f(g := w)) x \<noteq> []} \<subseteq> insert g {x. f x \<noteq> []}" by auto
  then have "finite {x. (f(g := w)) x \<noteq> []}"
    using assms(1) unfolding todo_ok_def by (meson finite.insertI finite_subset)
  then show ?thesis using assms by (simp add: todo_ok_def)
qed

lemma todo_ok_next:
  assumes "ns_todo s g = a # w" and "todo_ok (ns_todo s)"
  shows "todo_ok ((ns_todo s)(g := w))"
proof (rule todo_ok_upd [OF assms(2)])
  have "ns_todo s g \<noteq> []" using assms(1) by simp
  then obtain v where "v \<in> jobs_of N g" and "suffix (ns_todo s g) v" using assms(2) unfolding todo_ok_def by blast
  then show "\<exists>v \<in> jobs_of N g. suffix w v" using assms(1) suffix_ConsD by fastforce
qed

lemma todo_ok_job: "todo_ok f \<Longrightarrow> job \<in> jobs_of N g \<Longrightarrow> todo_ok (f(g := job))"
  by (rule todo_ok_upd) auto

lemma finite_queue: "finite {c. q c \<noteq> (0 :: nat)} \<Longrightarrow> finite {x. (q(c := n)) x \<noteq> 0}"
  by (rule finite_subset [of _ "insert c {c. q c \<noteq> 0}"]) auto

lemma net_ok_alt:
  "net_ok s \<longleftrightarrow> todo_ok (ns_todo s) \<and> finite {c. ns_queue s c \<noteq> 0} \<and>
     (\<forall>h. ns_holder s = Some h \<longrightarrow> h = keeper \<and> (\<exists>cs. ns_todo s h = map Send cs @ [Leave]))"
  by (auto simp: net_ok_def todo_ok_def)

lemma kept_next: "map Send cs @ [Leave] = Send c # w \<Longrightarrow> \<exists>cs'. w = map Send cs' @ [Leave]"
  by (cases cs) auto

lemma net_step_ok: "net_step N s s' \<Longrightarrow> net_ok s \<Longrightarrow> net_ok s'"
proof (induction rule: net_step.induct)
  case (send s g c w)
  then show ?case
    using todo_ok_next [OF send(1)] kept_next [of _ c w] finite_queue [of "ns_queue s" c]
    by (auto simp: net_ok_alt)
next
  case (hand_over s g c w r job)
  then have "job \<in> jobs_of N r" and "r \<noteq> g" by (auto simp: jobs_of_def)
  with hand_over todo_ok_job [OF todo_ok_next [OF hand_over(1)]] kept_next [of _ c w] show ?case
    by (auto simp: net_ok_alt)
next
  case (receive s c n r job)
  then have "job \<in> jobs_of N r" by (auto simp: jobs_of_def)
  with receive todo_ok_job [of "ns_todo s" job r] finite_queue [of "ns_queue s" c n] show ?case
    by (auto simp: net_ok_alt)
next
  case (offer s g c w)
  then show ?case
    using todo_ok_next [OF offer(1)] finite_queue [of "ns_queue s" c]
    by (auto simp: net_ok_alt Cons_eq_append_conv append_eq_Cons_conv Cons_eq_map_conv)
next
  case (pass s g w)
  then show ?case using todo_ok_next [OF pass(1)] by (auto simp: net_ok_alt)
next
  case (take s g w)
  then show ?case using todo_ok_next [OF take(1)] todo_take [OF take(3,1)] by (auto simp: net_ok_alt)
next
  case (leave s g w)
  then show ?case using todo_ok_next [OF leave(1)] by (auto simp: net_ok_alt)
qed

lemma net_event_ok: "net_event N s s' \<Longrightarrow> net_ok s \<Longrightarrow> net_ok s'"
proof (induction rule: net_event.induct)
  case (start s g job)
  then have "job \<in> jobs_of N g" by (simp add: jobs_of_def)
  with start todo_ok_job [of "ns_todo s" job g] show ?case by (auto simp: net_ok_alt)
qed

lemma reachable_ok: "(net_move N)\<^sup>*\<^sup>* all_idle s \<Longrightarrow> net_ok s"
  by (induction rule: rtranclp_induct) (auto simp: net_ok_idle net_move_def net_step_ok net_event_ok)

subsection \<open>Progress\<close>

lemma stuck_idle:
  assumes ok: "net_ok s" and stuck: "\<nexists>s'. net_step N s s'"
  shows "ns_todo s g = []"
proof (induction "level g" arbitrary: g rule: less_induct)
  case less
  have waits: "ns_todo s r = []" if "r \<in> nt_receivers N c" "rank c < level g" for r c
    using less that receiver_level by simp
  show ?case
  proof (cases "ns_todo s g")
    case Nil
    then show ?thesis .
  next
    case (Cons a w)
    have False
    proof (cases a)
      case (Send c)
      with Cons have todo: "ns_todo s g = Send c # w" by simp
      obtain r job where r: "r \<in> nt_receivers N c" and job: "job \<in> nt_job N c"
        using receiver [of c] job [of c] by blast
      have idle: "ns_todo s r = []" using waits [OF r] todo_sends_down [OF ok, of c g] todo by simp
      show False
      proof (cases "ns_queue s c < nt_cap N c")
        case True
        then show False using stuck net_step.send [OF todo] by blast
      next
        case False
        then show False
          using stuck net_step.hand_over [of s g c w N r job] net_step.receive [of s c _ r N job] todo r job idle
          by (cases "ns_queue s c") auto
      qed
    next
      case (Offer c)
      then show False using stuck net_step.offer [of s g c w N] Cons by blast
    next
      case Pass
      with Cons have todo: "ns_todo s g = Pass # w" by simp
      then obtain h where "ns_holder s = Some h"
        using stuck net_step.pass [OF todo] by fastforce
      then have h: "h = keeper" "ns_todo s keeper \<noteq> []" "ns_todo s keeper \<noteq> Pass # w"
        using ok by (auto simp: net_ok_def Cons_eq_append_conv append_eq_Cons_conv Cons_eq_map_conv)
      with todo have "level keeper < level g" using todo_passes_above [OF ok, of g] by auto
      with less h(2) show False by blast
    next
      case Take
      with Cons have todo: "ns_todo s g = Take # w" by simp
      then obtain h where "ns_holder s = Some h"
        using stuck net_step.take [OF todo] by fastforce
      then show False
        using ok todo todo_take [OF ok todo]
        by (auto simp: net_ok_def Cons_eq_append_conv append_eq_Cons_conv Cons_eq_map_conv)
    next
      case Leave
      then show False using stuck net_step.leave [of s g w N] Cons by blast
    qed
    then show ?thesis ..
  qed
qed

lemma stuck_all_idle:
  assumes ok: "net_ok s" and stuck: "\<nexists>s'. net_step N s s'"
  shows "s = all_idle"
proof -
  have todo: "ns_todo s g = []" for g using stuck_idle [OF assms] .
  have "ns_queue s c = 0" for c
  proof (cases "ns_queue s c")
    case (Suc n)
    obtain r job where "r \<in> nt_receivers N c" and "job \<in> nt_job N c"
      using receiver [of c] job [of c] by blast
    then show ?thesis using stuck net_step.receive [OF Suc _ todo] by blast
  qed
  moreover have "ns_holder s = None"
    using ok todo by (cases "ns_holder s") (auto simp: net_ok_def)
  ultimately show ?thesis using todo by (cases s) (auto simp: all_idle_def)
qed

subsection \<open>Termination\<close>

text \<open>
  The work left: a message weighs twice the rank of its channel, a send one more. A receiver replaces a message
  by sends on lower channels only, however many, so the multiset of the weights decreases.
\<close>

fun weight :: "'c action \<Rightarrow> nat" where
  "weight (Send c) = Suc (2 * rank c)"
| "weight (Offer c) = Suc (2 * rank c)"
| "weight Pass = 0"
| "weight Take = 0"
| "weight Leave = 0"

definition todo_weights :: "('g \<Rightarrow> 'c action list) \<Rightarrow> nat multiset" where
  "todo_weights f = (\<Sum>g | f g \<noteq> []. image_mset weight (mset (f g)))"

definition queue_weights :: "('c \<Rightarrow> nat) \<Rightarrow> nat multiset" where
  "queue_weights q = (\<Sum>c | q c \<noteq> 0. replicate_mset (q c) (2 * rank c))"

definition work_weights :: "('g, 'c) net_state \<Rightarrow> nat multiset" where
  "work_weights s = todo_weights (ns_todo s) + queue_weights (ns_queue s)"

lemma sum_support_upd:
  fixes h :: "'a \<Rightarrow> 'b \<Rightarrow> nat multiset"
  assumes fin: "finite {x. f x \<noteq> e}" and zero: "\<And>x. h x e = {#}"
  shows "(\<Sum>x | (f(a := b)) x \<noteq> e. h x ((f(a := b)) x)) + h a (f a) = (\<Sum>x | f x \<noteq> e. h x (f x)) + h a b"
proof -
  let ?A = "insert a {x. f x \<noteq> e}"
  have all: "(\<Sum>x | g x \<noteq> e. h x (g x)) = (\<Sum>x \<in> ?A. h x (g x))" if "\<And>x. x \<noteq> a \<Longrightarrow> g x = f x" for g
    using fin that by (intro sum.mono_neutral_left) (auto simp: zero)
  have rest: "(\<Sum>x \<in> ?A - {a}. h x ((f(a := b)) x)) = (\<Sum>x \<in> ?A - {a}. h x (f x))"
    by (rule sum.cong) auto
  have split: "(\<Sum>x \<in> ?A. h x (g x)) = h a (g a) + (\<Sum>x \<in> ?A - {a}. h x (g x))" for g
    using fin by (intro sum.remove) auto
  have "(\<Sum>x | (f(a := b)) x \<noteq> e. h x ((f(a := b)) x)) = h a b + (\<Sum>x \<in> ?A - {a}. h x (f x))"
    using all [of "f(a := b)"] split [of "f(a := b)"] rest by simp
  moreover have "(\<Sum>x | f x \<noteq> e. h x (f x)) = h a (f a) + (\<Sum>x \<in> ?A - {a}. h x (f x))"
    using all [of f] split [of f] by simp
  ultimately show ?thesis by (simp add: ac_simps)
qed

lemma todo_weights_upd:
  "finite {x. f x \<noteq> []} \<Longrightarrow>
     todo_weights (f(g := w)) + image_mset weight (mset (f g)) = todo_weights f + image_mset weight (mset w)"
  using sum_support_upd [of f "[]" "\<lambda>_ w. image_mset weight (mset w)" g w] by (simp add: todo_weights_def)

lemma todo_weights_next:
  "finite {x. ns_todo s x \<noteq> []} \<Longrightarrow> ns_todo s g = a # w \<Longrightarrow>
     todo_weights (ns_todo s) = add_mset (weight a) (todo_weights ((ns_todo s)(g := w)))"
  using todo_weights_upd [of "ns_todo s" g w] by simp

lemma todo_weights_job:
  "finite {x. f x \<noteq> []} \<Longrightarrow> f g = [] \<Longrightarrow> todo_weights (f(g := w)) = todo_weights f + image_mset weight (mset w)"
  using todo_weights_upd [of f g w] by simp

lemma queue_weights_Suc:
  assumes "finite {x. q x \<noteq> (0 :: nat)}"
  shows "queue_weights (q(c := Suc (q c))) = add_mset (2 * rank c) (queue_weights q)"
  using sum_support_upd [OF assms, of "\<lambda>c n. replicate_mset n (2 * rank c)" c "Suc (q c)"] by (simp add: queue_weights_def)

lemma queue_weights_pred:
  assumes "finite {x. q x \<noteq> (0 :: nat)}" and "q c = Suc n"
  shows "queue_weights q = add_mset (2 * rank c) (queue_weights (q(c := n)))"
  using sum_support_upd [OF assms(1), of "\<lambda>c n. replicate_mset n (2 * rank c)" c n] assms(2) by (simp add: queue_weights_def)

lemma less_drop: "(M :: nat multiset) + K < M + add_mset a K'" if "\<forall>k \<in># K. k < a"
proof -
  have "M + K < M + add_mset a K'"
    using that by (intro one_step_implies_multp [of "add_mset a K'" K "(<)" M, folded less_multiset_def]) auto
  then show ?thesis .
qed

lemma job_weights:
  assumes "job \<in> nt_job N c" and "r \<in> nt_receivers N c"
  shows "\<forall>k \<in># image_mset weight (mset job). k < 2 * rank c"
proof -
  have jobs: "job \<in> jobs_of N r" using assms by (auto simp: jobs_of_def)
  have "weight a < 2 * rank c" if a: "a \<in> set job" for a
  proof (cases a)
    case (Send d)
    with jobs a have "rank d < level r" by (intro sends_down) auto
    then show ?thesis using Send receiver_level [OF assms(2)] by simp
  next
    case (Offer d)
    with jobs a have "rank d < level r" by (intro sends_down) auto
    then show ?thesis using Offer receiver_level [OF assms(2)] by simp
  next
    case Pass
    with jobs a have "0 < level r" using passes_above keeper_level by fastforce
    then show ?thesis using Pass receiver_level [OF assms(2)] by simp
  next
    case Take
    with jobs a have "r = keeper" using keeps by blast
    then show ?thesis using Take keeper_level receiver_level [OF assms(2)] by simp
  next
    case Leave
    with jobs a have "r = keeper" using keeps by blast
    then show ?thesis using Leave keeper_level receiver_level [OF assms(2)] by simp
  qed
  then show ?thesis by auto
qed

lemma net_step_weights: "net_step N s s' \<Longrightarrow> net_ok s \<Longrightarrow> work_weights s' < work_weights s"
proof (induction rule: net_step.induct)
  case (send s g c w)
  then have fin: "finite {g. ns_todo s g \<noteq> []}" "finite {c. ns_queue s c \<noteq> 0}" by (auto simp: net_ok_def)
  let ?M = "todo_weights ((ns_todo s)(g := w)) + queue_weights (ns_queue s)"
  have "?M + {#2 * rank c#} < ?M + {#Suc (2 * rank c)#}" by (rule less_drop) simp
  then show ?case
    by (simp add: work_weights_def todo_weights_next [OF fin(1) send(1)] queue_weights_Suc [OF fin(2)])
next
  case (hand_over s g c w r job)
  then have fin: "finite {g. ns_todo s g \<noteq> []}" and r: "((ns_todo s)(g := w)) r = []" by (auto simp: net_ok_def)
  have fin': "finite {x. ((ns_todo s)(g := w)) x \<noteq> []}" by (rule finite_subset [OF _ finite.insertI [OF fin, of g]]) auto
  have job': "todo_weights ((ns_todo s)(g := w, r := job)) = todo_weights ((ns_todo s)(g := w)) + image_mset weight (mset job)"
    by (rule todo_weights_job [OF fin' r])
  let ?M = "todo_weights ((ns_todo s)(g := w)) + queue_weights (ns_queue s)"
  have "?M + image_mset weight (mset job) < ?M + {#Suc (2 * rank c)#}"
    using job_weights [OF hand_over(5,3)] by (intro less_drop) auto
  then show ?case
    by (simp add: work_weights_def todo_weights_next [OF fin hand_over(1)] job' ac_simps)
next
  case (receive s c n r job)
  then have fin: "finite {g. ns_todo s g \<noteq> []}" "finite {c. ns_queue s c \<noteq> 0}" by (auto simp: net_ok_def)
  let ?M = "todo_weights (ns_todo s) + queue_weights ((ns_queue s)(c := n))"
  have "?M + image_mset weight (mset job) < ?M + {#2 * rank c#}"
    using job_weights [OF receive(4,2)] by (intro less_drop) auto
  then show ?case
    by (simp add: work_weights_def todo_weights_job [OF fin(1) receive(3)] queue_weights_pred [OF fin(2) receive(1)] ac_simps)
next
  case (offer s g c w)
  then have fin: "finite {g. ns_todo s g \<noteq> []}" "finite {c. ns_queue s c \<noteq> 0}" by (auto simp: net_ok_def)
  let ?M = "todo_weights ((ns_todo s)(g := w)) + queue_weights (ns_queue s)"
  have "?M + {#2 * rank c#} < ?M + {#Suc (2 * rank c)#}" "?M + {#} < ?M + {#Suc (2 * rank c)#}"
    by (rule less_drop; simp)+
  then show ?case
    by (simp add: work_weights_def todo_weights_next [OF fin(1) offer(1)] queue_weights_Suc [OF fin(2)])
next
  case (pass s g w)
  then have "finite {g. ns_todo s g \<noteq> []}" by (simp add: net_ok_def)
  then show ?case by (simp add: work_weights_def todo_weights_next [OF _ pass(1)])
next
  case (take s g w)
  then have "finite {g. ns_todo s g \<noteq> []}" by (simp add: net_ok_def)
  then show ?case by (simp add: work_weights_def todo_weights_next [OF _ take(1)])
next
  case (leave s g w)
  then have "finite {g. ns_todo s g \<noteq> []}" by (simp add: net_ok_def)
  then show ?case by (simp add: work_weights_def todo_weights_next [OF _ leave(1)])
qed

lemma net_runs_end:
  assumes "net_ok (f 0)"
  shows "\<exists>i. \<not> net_step N (f i) (f (Suc i))"
proof (rule ccontr)
  assume "\<not> ?thesis"
  then have step: "net_step N (f i) (f (Suc i))" for i by blast
  have ok: "net_ok (f i)" for i by (induction i) (auto intro: assms net_step_ok [OF step])
  have "wf {(x :: nat multiset, y). x < y}" by (rule wf)
  then have "\<nexists>g. \<forall>i. (g (Suc i), g i) \<in> {(x :: nat multiset, y). x < y}"
    unfolding wf_iff_no_infinite_down_chain .
  then show False
    using net_step_weights [OF step ok] by (auto dest!: spec [of _ "\<lambda>i. work_weights (f i)"])
qed

lemma net_settles: "net_ok s \<Longrightarrow> (net_step N)\<^sup>*\<^sup>* s all_idle"
proof (induction "work_weights s" arbitrary: s rule: less_induct)
  case less
  show ?case
  proof (cases "\<exists>s'. net_step N s s'")
    case True
    then obtain s' where step: "net_step N s s'" by blast
    show ?thesis
      using less.hyps [OF net_step_weights [OF step less.prems] net_step_ok [OF step less.prems]] step
      by (rule converse_rtranclp_into_rtranclp [of "net_step N", rotated])
  next
    case False
    then show ?thesis using stuck_all_idle [OF less.prems] by simp
  qed
qed

end

end
