(* ===== verification/Goroutines.thy ===== *)
theory Goroutines
  imports Channels
begin

text \<open>
  The goroutines of the program, the channels between them and the mutex of the history, as a network of the
  theory \<open>Channels\<close>: who sends on which channel while doing what. The other mutexes enclose no operation
  that blocks, so they are left out. What is published to NATS is kept by its server, so publishing does not
  block. The writer to the web sockets is idle after a message here; \<open>WebsocketPool\<close> has its work.
\<close>

section \<open>Channels and goroutines\<close>

datatype chan = UpdateChan | BlockChan | WebsocketChan | ResolvChan | ASNNetChan | RecheckChan | RemoveChan | InChan

text \<open>
  A handler for each request that is being handled, a timer for each network, a handler for each web socket,
  and the goroutine of \<open>New\<close> that waits for the end of the program. The others are loops.
\<close>

datatype goroutine = Handler nat | HistoryLoop | ResolvLoop | BlockLoop | ASNNetLoop | ResolverLoop nat | NatsReader
  | NetworksLoop | NetworkTimer nat | CleanupLoop | WatchLoop | WebsocketLoop | ClientHandler nat | Shutdown

fun chan_cap :: "chan \<Rightarrow> nat" where
  "chan_cap BlockChan = 100"
| "chan_cap ASNNetChan = 100"
| "chan_cap RecheckChan = 100"
| "chan_cap WebsocketChan = 100"
| "chan_cap ResolvChan = 2000"
| "chan_cap UpdateChan = 0"
| "chan_cap RemoveChan = 0"
| "chan_cap InChan = 0"

text \<open>Each channel has one receiver, but for the topic of the resolver, which all its workers read.\<close>

fun chan_receivers :: "nat \<Rightarrow> chan \<Rightarrow> goroutine set" where
  "chan_receivers n UpdateChan = {HistoryLoop}"
| "chan_receivers n BlockChan = {BlockLoop}"
| "chan_receivers n WebsocketChan = {WebsocketLoop}"
| "chan_receivers n ResolvChan = {ResolvLoop}"
| "chan_receivers n ASNNetChan = {ASNNetLoop}"
| "chan_receivers n RecheckChan = {CleanupLoop}"
| "chan_receivers n RemoveChan = {NetworksLoop}"
| "chan_receivers n InChan = ResolverLoop ` {..<n}"

section \<open>What they do\<close>

text \<open>\<open>History.update\<close>: a look into the map for each entry, and a message if its address is to be blocked.\<close>

definition update_job :: "bool list \<Rightarrow> chan action list" where
  "update_job bs = concat (map (\<lambda>b. Pass # (if b then [Send BlockChan] else [])) bs)"

text \<open>\<open>History.expire\<close> sends a message for each address it removes, and keeps the mutex meanwhile.\<close>

definition expire_job :: "nat \<Rightarrow> chan action list" where
  "expire_job removed = Take # replicate removed (Send WebsocketChan) @ [Leave]"

text \<open>
  \<open>HandleRequest\<close>: nothing for an address that does not parse; otherwise two looks into the map, the statistics if
  the address is still there at the second, and a message if it is new.
\<close>

definition request_job :: "bool \<Rightarrow> bool \<Rightarrow> chan action list" where
  "request_job found new_ip =
     [Pass, Pass] @ (if found then [Send UpdateChan] else []) @ (if new_ip then [Send WebsocketChan] else [])"

text \<open>\<open>SetHostname\<close>.\<close>

definition hostname_job :: "bool \<Rightarrow> chan action list" where
  "hostname_job found = Pass # (if found then [Send UpdateChan] else [])"

text \<open>\<open>blockASNNetWorker\<close>: one pass over the map, then the update.\<close>

definition asn_net_job :: "bool list \<Rightarrow> chan action list" where
  "asn_net_job bs = Pass # update_job bs"

text \<open>\<open>CheckBlocked\<close>, which the networks plugin calls after it has blocked something.\<close>

definition check_blocked_job :: "chan action list" where
  "check_blocked_job = [Send ASNNetChan]"

text \<open>The timer of a network.\<close>

definition network_timer_job :: "chan action list" where
  "network_timer_job = [Send RemoveChan]"

text \<open>
  The watcher of the rules: it loads them after a write event and ends when the channel of events is closed. A
  load that succeeds asks for a recheck.
\<close>

definition watch_job :: "bool \<Rightarrow> bool \<Rightarrow> chan action list" where
  "watch_job write_event loaded = (if write_event \<and> loaded then [Send RecheckChan] else [])"

text \<open>A web socket's handler offers the blocked addresses.\<close>

definition client_job :: "bool \<Rightarrow> chan action list" where
  "client_job listed = (if listed then [Offer WebsocketChan] else [])"

fun chan_job :: "chan \<Rightarrow> chan action list set" where
  "chan_job UpdateChan = (\<lambda>b. update_job [b]) ` UNIV"
| "chan_job BlockChan = {[], [Send WebsocketChan]}"
| "chan_job WebsocketChan = {[]}"
| "chan_job ResolvChan = insert [] (range hostname_job)"
| "chan_job ASNNetChan = range asn_net_job"
| "chan_job RecheckChan = {[]}"
| "chan_job RemoveChan = {[]}"
| "chan_job InChan = {[], [Send ResolvChan]}"

fun start_job :: "goroutine \<Rightarrow> chan action list set" where
  "start_job (Handler i) = {request_job found new_ip | found new_ip. True}"
| "start_job HistoryLoop = range expire_job"
| "start_job NatsReader = {[Send InChan]}"
| "start_job NetworksLoop = {[], check_blocked_job}"
| "start_job (NetworkTimer i) = {network_timer_job}"
| "start_job WatchLoop = {watch_job write_event loaded | write_event loaded. True}"
| "start_job (ClientHandler i) = range client_job"
| "start_job _ = {}"

definition botex_net :: "nat \<Rightarrow> (goroutine, chan) net" where
  "botex_net n = \<lparr>nt_cap = chan_cap, nt_receivers = chan_receivers n, nt_job = chan_job, nt_start = start_job\<rparr>"

lemma botex_net_simps [simp]:
  "nt_cap (botex_net n) = chan_cap" "nt_receivers (botex_net n) = chan_receivers n" "nt_job (botex_net n) = chan_job"
  "nt_start (botex_net n) = start_job"
  by (simp_all add: botex_net_def)

section \<open>The layers\<close>

fun gor_level :: "goroutine \<Rightarrow> nat" where
  "gor_level WebsocketLoop = 0"
| "gor_level CleanupLoop = 0"
| "gor_level BlockLoop = 1"
| "gor_level WatchLoop = 1"
| "gor_level (ClientHandler i) = 1"
| "gor_level HistoryLoop = 2"
| "gor_level (Handler i) = 3"
| "gor_level ResolvLoop = 3"
| "gor_level ASNNetLoop = 3"
| "gor_level (ResolverLoop i) = 4"
| "gor_level NetworksLoop = 4"
| "gor_level NatsReader = 5"
| "gor_level (NetworkTimer i) = 5"
| "gor_level Shutdown = 0"

fun chan_rank :: "chan \<Rightarrow> nat" where
  "chan_rank WebsocketChan = 0"
| "chan_rank RecheckChan = 0"
| "chan_rank BlockChan = 1"
| "chan_rank UpdateChan = 2"
| "chan_rank ResolvChan = 3"
| "chan_rank ASNNetChan = 3"
| "chan_rank RemoveChan = 4"
| "chan_rank InChan = 4"

text \<open>The jobs by the goroutine that has them.\<close>

fun gor_jobs :: "goroutine \<Rightarrow> chan action list set" where
  "gor_jobs HistoryLoop = range expire_job \<union> (\<lambda>b. update_job [b]) ` UNIV"
| "gor_jobs BlockLoop = chan_job BlockChan"
| "gor_jobs WebsocketLoop = chan_job WebsocketChan"
| "gor_jobs ResolvLoop = chan_job ResolvChan"
| "gor_jobs ASNNetLoop = chan_job ASNNetChan"
| "gor_jobs CleanupLoop = chan_job RecheckChan"
| "gor_jobs NetworksLoop = {[], check_blocked_job}"
| "gor_jobs (ResolverLoop i) = chan_job InChan"
| "gor_jobs g = start_job g"

lemma jobs_of_botex: "w \<in> jobs_of (botex_net n) g \<Longrightarrow> w \<in> gor_jobs g"
proof -
  assume "w \<in> jobs_of (botex_net n) g"
  then consider "w \<in> start_job g" | c where "g \<in> chan_receivers n c" and "w \<in> chan_job c"
    by (auto simp: jobs_of_def)
  then show "w \<in> gor_jobs g"
  proof cases
    case 1
    then show ?thesis by (cases g) auto
  next
    case 2
    then show ?thesis by (cases c) auto
  qed
qed

lemmas job_defs = update_job_def expire_job_def request_job_def hostname_job_def asn_net_job_def check_blocked_job_def
  network_timer_job_def watch_job_def client_job_def

lemma gor_jobs_send:
  assumes "w \<in> gor_jobs g" and "Send c \<in> set w \<or> Offer c \<in> set w"
  shows "(c, g) \<in> {(UpdateChan, ResolvLoop), (BlockChan, HistoryLoop), (BlockChan, ASNNetLoop), (WebsocketChan, HistoryLoop),
      (WebsocketChan, BlockLoop), (ASNNetChan, NetworksLoop), (RecheckChan, WatchLoop), (InChan, NatsReader)} \<or>
    (\<exists>i. g = Handler i \<and> c \<in> {UpdateChan, WebsocketChan} \<or> g = ResolverLoop i \<and> c = ResolvChan \<or>
       g = NetworkTimer i \<and> c = RemoveChan \<or> g = ClientHandler i \<and> c = WebsocketChan)"
  using assms by (cases g) (auto simp: job_defs split: if_splits)

lemma gor_jobs_pass:
  assumes "w \<in> gor_jobs g" and "Pass \<in> set w"
  shows "g \<in> {HistoryLoop, ResolvLoop, ASNNetLoop} \<or> (\<exists>i. g = Handler i)"
  using assms by (cases g) (auto simp: job_defs split: if_splits)

lemma gor_jobs_take:
  assumes "w \<in> gor_jobs g" and "Take \<in> set w \<or> Leave \<in> set w"
  shows "g = HistoryLoop \<and> (\<exists>k. w = expire_job k)"
  using assms by (cases g) (auto simp: job_defs split: if_splits)

interpretation bn: layered_net "botex_net (Suc n)" chan_rank gor_level HistoryLoop for n
proof unfold_locales
  show "nt_receivers (botex_net (Suc n)) c \<noteq> {}" for c by (cases c) auto
  show "r \<in> nt_receivers (botex_net (Suc n)) c \<Longrightarrow> gor_level r = chan_rank c" for r c by (cases c) auto
  show "nt_job (botex_net (Suc n)) c \<noteq> {}" for c by (cases c) auto
  show "w \<in> jobs_of (botex_net (Suc n)) g \<Longrightarrow> Send c \<in> set w \<or> Offer c \<in> set w \<Longrightarrow> chan_rank c < gor_level g" for w g c
    using gor_jobs_send [OF jobs_of_botex] by fastforce
  show "w \<in> jobs_of (botex_net (Suc n)) g \<Longrightarrow> Pass \<in> set w \<Longrightarrow>
      g = HistoryLoop \<or> gor_level HistoryLoop < gor_level g" for w g
    using gor_jobs_pass [OF jobs_of_botex] by fastforce
  show "0 < gor_level HistoryLoop" by simp
  show "w \<in> jobs_of (botex_net (Suc n)) g \<Longrightarrow> Take \<in> set w \<or> Leave \<in> set w \<Longrightarrow>
      g = HistoryLoop \<and> (\<exists>cs. w = Take # map Send cs @ [Leave])" for w g
    using gor_jobs_take [OF jobs_of_botex] by (metis expire_job_def map_replicate)
qed

section \<open>The end of the program\<close>

text \<open>
  When the context is cancelled, the loops that watch it leave, each when it next waits, and three of them close a
  channel. The handlers of requests, the reader of NATS and the watcher of the rules go on.
\<close>

record shutdown =
  sd_net :: "(goroutine, chan) net_state"
  sd_gone :: "goroutine set"
  sd_closed :: "chan set"

fun watches_context :: "goroutine \<Rightarrow> bool" where
  "watches_context (Handler i) = False"
| "watches_context NatsReader = False"
| "watches_context WatchLoop = False"
| "watches_context (ClientHandler i) = False"
| "watches_context _ = True"

fun closes :: "goroutine \<Rightarrow> chan set" where
  "closes Shutdown = {ResolvChan}"
| "closes ASNNetLoop = {ASNNetChan}"
| "closes NetworksLoop = {RemoveChan}"
| "closes _ = {}"

definition remaining_net :: "nat \<Rightarrow> goroutine set \<Rightarrow> (goroutine, chan) net" where
  "remaining_net n gone =
     (botex_net n)\<lparr>nt_receivers := \<lambda>c. chan_receivers n c - gone,
       nt_start := \<lambda>g. if g \<in> gone then {} else start_job g\<rparr>"

text \<open>A send on a closed channel panics, and with the goroutine the program.\<close>

definition panics_at :: "shutdown \<Rightarrow> goroutine \<Rightarrow> chan \<Rightarrow> bool" where
  "panics_at s g c \<longleftrightarrow> c \<in> sd_closed s \<and> (\<exists>w. ns_todo (sd_net s) g = Send c # w)"

inductive shutdown_step :: "nat \<Rightarrow> shutdown \<Rightarrow> shutdown \<Rightarrow> bool" for n :: nat where
  go_on: "net_step (remaining_net n (sd_gone s)) (sd_net s) t \<or> net_event (remaining_net n (sd_gone s)) (sd_net s) t \<Longrightarrow>
    \<forall>g c. panics_at s g c \<longrightarrow> ns_todo t g = ns_todo (sd_net s) g \<Longrightarrow> shutdown_step n s (s\<lparr>sd_net := t\<rparr>)"
| leave_loop: "watches_context g \<Longrightarrow> g \<notin> sd_gone s \<Longrightarrow> ns_todo (sd_net s) g = [] \<Longrightarrow>
    shutdown_step n s (s\<lparr>sd_gone := insert g (sd_gone s), sd_closed := sd_closed s \<union> closes g\<rparr>)"

definition cancelled :: "(goroutine, chan) net_state \<Rightarrow> shutdown" where
  "cancelled s = \<lparr>sd_net = s, sd_gone = {}, sd_closed = {}\<rparr>"

text \<open>A state that the program can be in after the context has been cancelled.\<close>

definition ending :: "nat \<Rightarrow> shutdown \<Rightarrow> bool" where
  "ending n s \<longleftrightarrow> (\<exists>t. (net_move (botex_net n))\<^sup>*\<^sup>* all_idle t \<and> (shutdown_step n)\<^sup>*\<^sup>* (cancelled t) s)"

text \<open>What a goroutine has to do is always part of one of its jobs, also while the program ends.\<close>

definition jobs_ok :: "(goroutine, chan) net_state \<Rightarrow> bool" where
  "jobs_ok s \<longleftrightarrow> (\<forall>g. ns_todo s g \<noteq> [] \<longrightarrow> (\<exists>w \<in> gor_jobs g. suffix (ns_todo s g) w))"

definition workers_ok :: "nat \<Rightarrow> (goroutine, chan) net_state \<Rightarrow> bool" where
  "workers_ok n s \<longleftrightarrow> (\<forall>i. ns_todo s (ResolverLoop i) \<noteq> [] \<longrightarrow> i < n)"

definition no_more_than :: "nat \<Rightarrow> (goroutine, chan) net \<Rightarrow> bool" where
  "no_more_than n N \<longleftrightarrow> (\<forall>c. nt_receivers N c \<subseteq> chan_receivers n c) \<and> nt_job N = chan_job \<and> (\<forall>g. nt_start N g \<subseteq> start_job g)"

lemma no_more_than_simps [simp]: "no_more_than n (botex_net n)" "no_more_than n (remaining_net n gone)"
  by (auto simp: no_more_than_def remaining_net_def)

lemma received_job:
  assumes "no_more_than n N" and "r \<in> nt_receivers N c" and "job \<in> nt_job N c"
  shows "job \<in> gor_jobs r" and "r = ResolverLoop i \<Longrightarrow> i < n"
proof -
  have r: "r \<in> chan_receivers n c" and job: "job \<in> chan_job c" using assms by (auto simp: no_more_than_def)
  show "job \<in> gor_jobs r" using jobs_of_botex [of job n r] r job by (auto simp: jobs_of_def)
  show "r = ResolverLoop i \<Longrightarrow> i < n" using r by (cases c) auto
qed

lemma started_job:
  assumes "no_more_than n N" and "job \<in> nt_start N g"
  shows "job \<in> gor_jobs g" and "g \<noteq> ResolverLoop i"
proof -
  have job: "job \<in> start_job g" using assms by (auto simp: no_more_than_def)
  then show "job \<in> gor_jobs g" using jobs_of_botex [of job n g] by (auto simp: jobs_of_def)
  show "g \<noteq> ResolverLoop i" using job by auto
qed

lemma jobs_ok_next:
  assumes "ns_todo s g = a # w" and "jobs_ok s"
  shows "w \<noteq> [] \<Longrightarrow> \<exists>v \<in> gor_jobs g. suffix w v"
proof -
  have "ns_todo s g \<noteq> []" using assms(1) by simp
  then obtain v where "v \<in> gor_jobs g" and "suffix (ns_todo s g) v" using assms(2) unfolding jobs_ok_def by blast
  then show "\<exists>v \<in> gor_jobs g. suffix w v" using assms(1) suffix_ConsD by fastforce
qed

lemma net_step_jobs:
  "net_step N s s' \<Longrightarrow> no_more_than n N \<Longrightarrow> jobs_ok s \<and> workers_ok n s \<Longrightarrow> jobs_ok s' \<and> workers_ok n s'"
proof (induction rule: net_step.induct)
  case (hand_over s g c w r job)
  then show ?case
    using jobs_ok_next [OF hand_over(1)] received_job [OF hand_over(6,3,5)] by (auto simp: jobs_ok_def workers_ok_def)
next
  case (receive s c m r job)
  then show ?case using received_job [OF receive(5,2,4)] by (auto simp: jobs_ok_def workers_ok_def)
next
  case (send s g c w)
  then show ?case using jobs_ok_next [OF send(1)] by (auto simp: jobs_ok_def workers_ok_def)
next
  case (offer s g c w)
  then show ?case using jobs_ok_next [OF offer(1)] by (auto simp: jobs_ok_def workers_ok_def)
next
  case (pass s g w)
  then show ?case using jobs_ok_next [OF pass(1)] by (auto simp: jobs_ok_def workers_ok_def)
next
  case (take s g w)
  then show ?case using jobs_ok_next [OF take(1)] by (auto simp: jobs_ok_def workers_ok_def)
next
  case (leave s g w)
  then show ?case using jobs_ok_next [OF leave(1)] by (auto simp: jobs_ok_def workers_ok_def)
qed

lemma net_event_jobs:
  "net_event N s s' \<Longrightarrow> no_more_than n N \<Longrightarrow> jobs_ok s \<and> workers_ok n s \<Longrightarrow> jobs_ok s' \<and> workers_ok n s'"
proof (induction rule: net_event.induct)
  case (start s g job)
  then show ?case using started_job [OF start(3,2)] by (auto simp: jobs_ok_def workers_ok_def)
qed

lemma ending_jobs:
  assumes "ending n s"
  shows "jobs_ok (sd_net s) \<and> workers_ok n (sd_net s) \<and> sd_closed s \<subseteq> {ResolvChan, ASNNetChan, RemoveChan}"
proof -
  obtain t where t: "(net_move (botex_net n))\<^sup>*\<^sup>* all_idle t" and run: "(shutdown_step n)\<^sup>*\<^sup>* (cancelled t) s"
    using assms by (auto simp: ending_def)
  from t have start: "jobs_ok t \<and> workers_ok n t"
  proof (induction rule: rtranclp_induct)
    case base
    then show ?case by (simp add: jobs_ok_def workers_ok_def all_idle_def)
  next
    case (step y z)
    then show ?case
      using net_step_jobs [of "botex_net n" y z n] net_event_jobs [of "botex_net n" y z n] by (auto simp: net_move_def)
  qed
  have closes: "closes g \<subseteq> {ResolvChan, ASNNetChan, RemoveChan}" for g by (cases g) auto
  from run show ?thesis
  proof (induction rule: rtranclp_induct)
    case base
    then show ?case using start by (simp add: cancelled_def)
  next
    case (step y z)
    from step(2,3) show ?case
      using net_step_jobs [of "remaining_net n (sd_gone y)" "sd_net y" _ n]
        net_event_jobs [of "remaining_net n (sd_gone y)" "sd_net y" _ n] closes
      by (cases rule: shutdown_step.cases) auto
  qed
qed

lemma can_panic:
  assumes "(net_move (botex_net n))\<^sup>*\<^sup>* all_idle t" and "ns_todo t g = Send c # w"
    and "c \<in> closes h" and "watches_context h" and "ns_todo t h = []"
  shows "\<exists>s. ending n s \<and> panics_at s g c"
proof -
  let ?s = "(cancelled t)\<lparr>sd_gone := {h}, sd_closed := closes h\<rparr>"
  have "shutdown_step n (cancelled t) ?s"
    using shutdown_step.leave_loop [of h "cancelled t" n] assms(4,5) by (simp add: cancelled_def)
  then have "(shutdown_step n)\<^sup>*\<^sup>* (cancelled t) ?s" by (rule r_into_rtranclp)
  with assms(1) have "ending n ?s" unfolding ending_def by blast
  moreover have "panics_at ?s g c" using assms(2,3) by (simp add: panics_at_def cancelled_def)
  ultimately show ?thesis by blast
qed

lemma start_reachable:
  "job \<in> start_job g \<Longrightarrow> (net_move (botex_net n))\<^sup>*\<^sup>* all_idle (all_idle\<lparr>ns_todo := (\<lambda>_. [])(g := job)\<rparr>)"
  using net_event.start [of all_idle g job "botex_net n"]
  by (intro r_into_rtranclp) (simp add: net_move_def all_idle_def)

lemma lookup_reachable:
  assumes "i < n"
  shows "(net_move (botex_net n))\<^sup>*\<^sup>* all_idle (all_idle\<lparr>ns_todo := (\<lambda>_. [])(NatsReader := [], ResolverLoop i := [Send ResolvChan])\<rparr>)"
proof -
  let ?t = "all_idle\<lparr>ns_todo := (\<lambda>_. [])(NatsReader := [Send InChan])\<rparr>"
  have "net_step (botex_net n) ?t (all_idle\<lparr>ns_todo := (\<lambda>_. [])(NatsReader := [], ResolverLoop i := [Send ResolvChan])\<rparr>)"
    using net_step.hand_over [of ?t NatsReader InChan "[]" "botex_net n" "ResolverLoop i" "[Send ResolvChan]"] assms
    by (simp add: all_idle_def)
  then show ?thesis
    using start_reachable [of "[Send InChan]" NatsReader n] by (auto simp: net_move_def intro: rtranclp.rtrancl_into_rtrancl)
qed

section \<open>Properties\<close>

text \<open>
  C2: The goroutines never block each other for ever, if there is a worker for the resolver: from every state that the
  program reaches, every run of steps without new work from outside ends, and it ends only where every goroutine
  waits for work, all channels are empty and the mutex is free. So each request, each message and each block
  gets through, in whatever order the scheduler takes them.
\<close>

theorem goroutines_settle:
  assumes "(net_move (botex_net (Suc n)))\<^sup>*\<^sup>* all_idle s"
  shows "(\<nexists>f. f 0 = s \<and> (\<forall>i. net_step (botex_net (Suc n)) (f i) (f (Suc i)))) \<and>
    (net_step (botex_net (Suc n)))\<^sup>*\<^sup>* s all_idle \<and>
    (\<forall>s'. (net_step (botex_net (Suc n)))\<^sup>*\<^sup>* s s' \<and> (\<nexists>s''. net_step (botex_net (Suc n)) s' s'') \<longrightarrow> s' = all_idle)"
proof -
  have ok: "bn.net_ok n s" using bn.reachable_ok [OF assms] .
  have "bn.net_ok n s'" if "(net_step (botex_net (Suc n)))\<^sup>*\<^sup>* s s'" for s'
    using that ok by (induction rule: rtranclp_induct) (auto intro: bn.net_step_ok)
  then have "(net_step (botex_net (Suc n)))\<^sup>*\<^sup>* s s' \<Longrightarrow> \<nexists>s''. net_step (botex_net (Suc n)) s' s'' \<Longrightarrow> s' = all_idle" for s'
    using bn.stuck_all_idle by blast
  moreover have "\<nexists>f. f 0 = s \<and> (\<forall>i. net_step (botex_net (Suc n)) (f i) (f (Suc i)))"
    using ok bn.net_runs_end by blast
  ultimately show ?thesis using bn.net_settles [OF ok] by blast
qed

text \<open>
  C19: Which sends can bring the program down while it ends: a channel is closed under its senders in three
  places. A worker of the resolver can send its result, the networks plugin its request to check the addresses, and
  the timer of a network its network, after the receiver has left and the channel has been closed. No other send can
  panic; the one that the code recovers from, on the channel of the statistics, is none of them.
\<close>

theorem shutdown_panics_iff:
  "(\<exists>s. ending n s \<and> panics_at s g c) \<longleftrightarrow>
     c = ResolvChan \<and> (\<exists>i < n. g = ResolverLoop i) \<or> c = ASNNetChan \<and> g = NetworksLoop \<or>
     c = RemoveChan \<and> (\<exists>i. g = NetworkTimer i)"
proof
  assume "\<exists>s. ending n s \<and> panics_at s g c"
  then obtain s w where e: "ending n s" and c: "c \<in> sd_closed s" and todo: "ns_todo (sd_net s) g = Send c # w"
    by (auto simp: panics_at_def)
  note ok = ending_jobs [OF e]
  have "ns_todo (sd_net s) g \<noteq> []" using todo by simp
  then obtain v where "v \<in> gor_jobs g" and "suffix (ns_todo (sd_net s) g) v"
    using ok unfolding jobs_ok_def by blast
  moreover from this have "Send c \<in> set v" using todo set_mono_suffix by fastforce
  ultimately show "c = ResolvChan \<and> (\<exists>i < n. g = ResolverLoop i) \<or> c = ASNNetChan \<and> g = NetworksLoop \<or>
      c = RemoveChan \<and> (\<exists>i. g = NetworkTimer i)"
    using gor_jobs_send [of v g c] ok c todo by (auto simp: workers_ok_def)
next
  assume "c = ResolvChan \<and> (\<exists>i < n. g = ResolverLoop i) \<or> c = ASNNetChan \<and> g = NetworksLoop \<or>
      c = RemoveChan \<and> (\<exists>i. g = NetworkTimer i)"
  then consider i where "c = ResolvChan" "i < n" "g = ResolverLoop i" | "c = ASNNetChan" "g = NetworksLoop"
    | i where "c = RemoveChan" "g = NetworkTimer i" by blast
  then show "\<exists>s. ending n s \<and> panics_at s g c"
  proof cases
    case 1
    then show ?thesis by (intro can_panic [OF lookup_reachable, of i n g c "[]" Shutdown]) simp_all
  next
    case 2
    then show ?thesis
      by (intro can_panic [OF start_reachable [of check_blocked_job NetworksLoop], of g c "[]" ASNNetLoop])
        (simp_all add: check_blocked_job_def)
  next
    case 3
    then show ?thesis
      by (intro can_panic [OF start_reachable [of network_timer_job g], of g c "[]" NetworksLoop])
        (simp_all add: network_timer_job_def)
  qed
qed

text \<open>
  A worker is needed: with none, which the option \<open>resolver-workers\<close> allows, the first address to be resolved
  blocks the reader of NATS for ever.
\<close>

lemma no_workers_stuck: "\<nexists>s'. net_step (botex_net 0) (all_idle\<lparr>ns_todo := (\<lambda>_. [])(NatsReader := [Send InChan])\<rparr>) s'"
  by (auto simp: all_idle_def elim!: net_step.cases split: if_splits)

section \<open>Witness\<close>

definition wit_move :: "(goroutine, chan) net_state" where
  "wit_move = all_idle\<lparr>ns_todo := (\<lambda>_. [])(Handler 0 := request_job True True)\<rparr>"

lemma goroutines_settle_witness:
  "wit_move \<noteq> all_idle \<and> (net_step (botex_net 30))\<^sup>*\<^sup>* wit_move all_idle"
proof -
  have "request_job True True \<in> start_job (Handler 0)" by auto
  then have "(net_move (botex_net (Suc 29)))\<^sup>*\<^sup>* all_idle wit_move"
    unfolding wit_move_def by (rule start_reachable)
  from goroutines_settle [OF this] have "(net_step (botex_net 30))\<^sup>*\<^sup>* wit_move all_idle" by simp
  moreover have "ns_todo wit_move (Handler 0) \<noteq> ns_todo all_idle (Handler 0)"
    by (simp add: wit_move_def all_idle_def request_job_def)
  ultimately show ?thesis by auto
qed

end
