(* ===== verification/Lifecycle.thy ===== *)
theory Lifecycle
  imports Options Goroutines
begin

text \<open>
  \<open>New\<close> of \<^verbatim>\<open>botex.go\<close> step by step: what it opens and starts, where it can fail, and what is left then. What
  the outside answers is a parameter. The state that it makes is in \<open>Startup\<close>; here are its effects and their
  order.
\<close>

section \<open>Effects and outcomes\<close>

datatype resource = BadgerStore | NatsServer | NatsConn | FileWatcher | SocketListener

text \<open>The goroutines that are started; those that take part in the channels are those of \<open>Goroutines\<close>.\<close>

datatype thread = Loop goroutine | StoreGC | ResolverClose | ApiServer | SocketAccept | MemoryStats | StatsLog
  | WhitelistCleanup | LogReplayer

datatype effect = Open resource | Close resource | Spawn thread | LoadRules | SubscribeRequests | ClearBlocked
  | MakeRouter | UseNetworks | UseIPMeta | MakeHistory

text \<open>\<open>New\<close> returns the program or an error, ends the process, or panics.\<close>

datatype start_result = Started | Failed | FatalExit | Crashed

text \<open>A step has an effect, or asks the outside; if that fails it undoes some effects and ends.\<close>

datatype start_step = Do effect | Ask bool "effect list" start_result

fun run_start :: "start_step list \<Rightarrow> effect list \<times> start_result" where
  "run_start [] = ([], Started)"
| "run_start (Do e # steps) = (let (es, r) = run_start steps in (e # es, r))"
| "run_start (Ask ok undo r # steps) = (if ok then run_start steps else (undo, r))"

text \<open>What the outside answers: for each call that can fail, whether it succeeds.\<close>

record outside =
  ou_badger :: bool
  ou_asndb :: bool
  ou_geoip :: bool
  ou_tls :: bool
  ou_nats_ready :: bool
  ou_nats_connect :: bool
  ou_encoded :: bool
  ou_resolver_conn :: bool
  ou_resolver_bind :: bool
  ou_rules_join :: bool
  ou_watcher :: bool
  ou_watch_file :: bool
  ou_subscribe :: bool
  ou_cookie_key :: bool
  ou_listen :: bool

section \<open>The steps\<close>

text \<open>\<open>NewBadgerDB\<close>, then the databases of autonomous systems and of cities.\<close>

definition badger_start :: "outside \<Rightarrow> start_step list" where
  "badger_start u = [Ask (ou_badger u) [] Failed, Do (Open BadgerStore), Do (Spawn StoreGC)]"

definition databases_start :: "outside \<Rightarrow> start_step list" where
  "databases_start u = badger_start u @ [Ask (ou_asndb u) [] FatalExit, Ask (ou_geoip u) [] Failed]"

text \<open>NATS, with TLS if all three files are given.\<close>

definition nats_start :: "options \<Rightarrow> outside \<Rightarrow> start_step list" where
  "nats_start opts u =
     [Ask (op_nats_ca opts = [] \<or> op_nats_cert opts = [] \<or> op_nats_key opts = [] \<or> ou_tls u) [] FatalExit,
      Do (Open NatsServer), Ask (ou_nats_ready u) [Close NatsServer] Failed,
      Ask (ou_nats_connect u) [Close NatsServer] Failed, Do (Open NatsConn),
      Ask (ou_encoded u) [Close NatsServer] Failed]"

text \<open>\<open>NewResolver\<close> and \<open>StartWorkers\<close>.\<close>

definition new_resolver_start :: "outside \<Rightarrow> start_step list" where
  "new_resolver_start u =
     [Ask (ou_resolver_conn u) [] Failed, Ask (ou_resolver_bind u) [] Failed, Do (Spawn (Loop NatsReader)),
      Do (Spawn ResolverClose)]"

definition workers_start :: "options \<Rightarrow> start_step list" where
  "workers_start opts = map (\<lambda>i. Do (Spawn (Loop (ResolverLoop i)))) [0..<nat (op_resolver_workers opts)]"

text \<open>\<open>reloadOnConfigChanges\<close>: the error of \<open>NewWatcher\<close> is logged, and the nil pointer used.\<close>

definition watcher_start :: "outside \<Rightarrow> start_step list" where
  "watcher_start u =
     [Ask (ou_watcher u) [] Crashed, Do (Open FileWatcher), Do (Spawn (Loop WatchLoop)), Ask (ou_watch_file u) [] FatalExit]"

text \<open>\<open>NewWhitelist\<close>: the error of \<open>Load\<close> is dropped, patterns that do not compile when joined panic.\<close>

definition whitelist_start :: "outside \<Rightarrow> start_step list" where
  "whitelist_start u = [Do (Spawn WhitelistCleanup), Ask (ou_rules_join u) [] Crashed, Do LoadRules] @ watcher_start u"

text \<open>The web server socket: \<open>NewWebserverSocket\<close> decodes the key and listens.\<close>

definition socket_start :: "options \<Rightarrow> outside \<Rightarrow> start_step list" where
  "socket_start opts u =
     (if wss_enabled (config.truncate opts) (op_socket_file opts) then
        [Ask (ou_cookie_key u) [] Failed, Ask (ou_listen u) [] Failed, Do (Open SocketListener), Do (Spawn SocketAccept)]
      else [])"

text \<open>The block list, the HTTP interface, the plugins and the history.\<close>

definition parts_start :: "options \<Rightarrow> start_step list" where
  "parts_start opts =
     [Do (Spawn (Loop CleanupLoop))] @ (if op_clear_blocked opts then [Do ClearBlocked] else []) @
     [Do MakeRouter, Do (Spawn (Loop WebsocketLoop)), Do (Spawn ApiServer)] @
     (if op_with_networks opts then [Do (Spawn (Loop NetworksLoop)), Do UseNetworks] else []) @
     [Do UseIPMeta, Do (Spawn (Loop HistoryLoop)), Do MakeHistory] @
     (if op_log_memory_stats opts then [Do (Spawn MemoryStats)] else [])"

definition new_start :: "options \<Rightarrow> outside \<Rightarrow> start_step list" where
  "new_start opts u =
     databases_start u @ nats_start opts u @ new_resolver_start u @ workers_start opts @ whitelist_start u @
     [Ask (ou_subscribe u) [Close NatsServer] Failed, Do SubscribeRequests] @ parts_start opts @ socket_start opts u @
     map (Do \<circ> Spawn) [Loop ResolvLoop, Loop BlockLoop, StatsLog, Loop ASNNetLoop, Loop Shutdown]"

text \<open>What the goroutine of \<open>New\<close> does at the end; draining leaves the connection to NATS closed.\<close>

definition shutdown_effects :: "effect list" where
  "shutdown_effects = [Close BadgerStore, Close NatsServer, Close NatsConn, Close BadgerStore]"

text \<open>\<open>main\<close>: any error of \<open>New\<close> ends the process; a log file is replayed by a goroutine.\<close>

definition main_start :: "options \<Rightarrow> outside \<Rightarrow> effect list \<times> bool" where
  "main_start opts u =
     (let (es, r) = run_start (new_start opts u)
      in (es @ (if r = Started \<and> op_log_replay opts \<noteq> [] then [Spawn LogReplayer] else []), r = Started))"

section \<open>What is left open\<close>

fun left_open :: "effect list \<Rightarrow> resource set \<Rightarrow> resource set" where
  "left_open [] R = R"
| "left_open (Open r # es) R = left_open es (insert r R)"
| "left_open (Close r # es) R = left_open es (R - {r})"
| "left_open (_ # es) R = left_open es R"

lemma left_open_append: "left_open (es @ es') R = left_open es' (left_open es R)"
  by (induction es R rule: left_open.induct) simp_all

text \<open>Steps that ask nothing have all their effects.\<close>

definition effects_of :: "start_step list \<Rightarrow> effect list" where
  "effects_of steps = concat (map (\<lambda>s. case s of Do e \<Rightarrow> [e] | _ \<Rightarrow> []) steps)"

definition asks_ok :: "start_step list \<Rightarrow> bool" where
  "asks_ok steps = list_all (\<lambda>s. case s of Do e \<Rightarrow> True | Ask ok undo r \<Rightarrow> ok) steps"

lemma run_start_append:
  "run_start (steps @ steps') =
     (if asks_ok steps then (effects_of steps @ fst (run_start steps'), snd (run_start steps')) else run_start steps)"
  by (induction steps rule: run_start.induct) (auto simp: asks_ok_def effects_of_def split: prod.splits)

lemma run_start_ok: "asks_ok steps \<Longrightarrow> run_start steps = (effects_of steps, Started)"
  using run_start_append [of steps "[]"] by simp

lemma asks_ok_append [simp]: "asks_ok (a @ b) \<longleftrightarrow> asks_ok a \<and> asks_ok b"
  by (simp add: asks_ok_def)

lemma effects_of_append [simp]: "effects_of (a @ b) = effects_of a @ effects_of b"
  by (simp add: effects_of_def)

lemma asks_ok_Do [simp]: "asks_ok (map (\<lambda>i. Do (f i)) xs)" "asks_ok (map (Do \<circ> f) xs)"
  by (simp_all add: asks_ok_def list_all_iff)

lemma effects_of_Do [simp]:
  "effects_of (map (\<lambda>i. Do (f i)) xs) = map f xs" "effects_of (map (Do \<circ> f) xs) = map f xs"
  by (induction xs) (simp_all add: effects_of_def)

lemma asks_ok_simps [simp]:
  "asks_ok []" "asks_ok (Do e # steps) = asks_ok steps" "asks_ok (Ask ok undo r # steps) = (ok \<and> asks_ok steps)"
  by (simp_all add: asks_ok_def)

lemma effects_of_simps [simp]:
  "effects_of [] = []" "effects_of (Do e # steps) = e # effects_of steps" "effects_of (Ask ok undo r # steps) = effects_of steps"
  by (simp_all add: effects_of_def)

lemma left_open_spawns [simp]: "left_open (map (\<lambda>i. Spawn (f i)) xs) R = R" "left_open (map (Spawn \<circ> f) xs) R = R"
  by (induction xs) simp_all

lemmas start_defs = badger_start_def databases_start_def nats_start_def new_resolver_start_def whitelist_start_def
  watcher_start_def socket_start_def
  parts_start_def workers_start_def

definition tls_ok :: "options \<Rightarrow> outside \<Rightarrow> bool" where
  "tls_ok opts u \<longleftrightarrow> op_nats_ca opts = [] \<or> op_nats_cert opts = [] \<or> op_nats_key opts = [] \<or> ou_tls u"

section \<open>Properties\<close>

text \<open>
  C21: What \<open>New\<close> leaves behind when it returns an error. The store stays open on every error but its own; the NATS
  server is shut down on its own errors and on that of the subscription, but not on those of the resolver and of
  the web server socket.
\<close>

theorem failed_start_leaves:
  assumes "run_start (new_start opts u) = (es, Failed)"
  shows "(BadgerStore \<in> left_open es {} \<longleftrightarrow> ou_badger u) \<and>
    (NatsServer \<in> left_open es {} \<longleftrightarrow> ou_badger u \<and> ou_geoip u \<and> ou_nats_ready u \<and> ou_nats_connect u \<and> ou_encoded u \<and>
       (ou_resolver_conn u \<and> ou_resolver_bind u \<longrightarrow> ou_subscribe u))"
proof -
  show ?thesis
    using assms unfolding new_start_def
    by (auto simp: run_start_append start_defs left_open_append split: if_splits)
qed


section \<open>Witnesses\<close>

definition all_well :: outside where
  "all_well = \<lparr>ou_badger = True, ou_asndb = True, ou_geoip = True, ou_tls = True, ou_nats_ready = True,
     ou_nats_connect = True, ou_encoded = True, ou_resolver_conn = True, ou_resolver_bind = True, ou_rules_join = True,
     ou_watcher = True, ou_watch_file = True, ou_subscribe = True, ou_cookie_key = True, ou_listen = True\<rparr>"

lemma failed_start_leaves_witness:
  "\<exists>es. run_start (new_start default_options (all_well\<lparr>ou_resolver_bind := False\<rparr>)) = (es, Failed) \<and>
     NatsServer \<in> left_open es {}"
proof -
  obtain es where run: "run_start (new_start default_options (all_well\<lparr>ou_resolver_bind := False\<rparr>)) = (es, Failed)"
    by (simp add: new_start_def run_start_append start_defs all_well_def default_options_def)
  from failed_start_leaves [OF run] run show ?thesis by (simp add: all_well_def)
qed


end
