(* ===== verification/Server.thy ===== *)
theory Server
  imports Options
begin

text \<open>
  What is served where: the routes of the HTTP interface, with those the plugins add, and the loop that
  accepts the connections of the web servers. The handlers are in \<open>Api\<close>, \<open>WebsocketPool\<close>, \<open>NetworksApi\<close> and
  \<open>Startup\<close>, serving a connection is in \<open>WebserverSocket\<close>.
\<close>

section \<open>Routes\<close>

datatype handler = GetBlockedIPs | GetIP | GetRequestStats | GetIPs | GetStats | WebsocketHandler
  | GetNetwork | GetBlockedNetworks | GetBlockedASNs | GetNetworks | GetASNStats | GetASN | GetGeoIP

text \<open>A segment of a pattern is a text or a parameter; each route is a GET.\<close>

datatype segment = Text string | Param string

type_synonym route = "segment list \<times> handler"

definition api_routes :: "route list" where
  "api_routes =
     [([Text ''blocked'', Text ''ips''], GetBlockedIPs), ([Text ''ip'', Param ''ip''], GetIP),
      ([Text ''request-stats'', Param ''ip'', Param ''windows''], GetRequestStats), ([Text ''ips''], GetIPs),
      ([Text ''stats''], GetStats), ([Text ''ws''], WebsocketHandler)]"

definition networks_routes :: "route list" where
  "networks_routes =
     [([Text ''network'', Param ''ip'', Param ''bits''], GetNetwork), ([Text ''blocked'', Text ''networks''], GetBlockedNetworks),
      ([Text ''blocked'', Text ''asns''], GetBlockedASNs), ([Text ''networks''], GetNetworks),
      ([Text ''stats'', Text ''asn'', Param ''asn''], GetASNStats)]"

definition ipmeta_routes :: "route list" where
  "ipmeta_routes = [([Text ''ipmeta'', Text ''asn'', Param ''ip''], GetASN), ([Text ''ipmeta'', Text ''geoip'', Param ''ip''], GetGeoIP)]"

text \<open>\<open>Use\<close> adds the routes of a plugin to those of the interface.\<close>

definition all_routes :: "options \<Rightarrow> route list" where
  "all_routes opts = api_routes @ (if op_with_networks opts then networks_routes else []) @ ipmeta_routes"

text \<open>As gin documents it, a path fits a pattern if each segment is the text, or any segment that is not empty for a parameter.\<close>

fun fits :: "segment list \<Rightarrow> string list \<Rightarrow> bool" where
  "fits [] [] = True"
| "fits (Text t # ps) (s # ss) = (s = t \<and> fits ps ss)"
| "fits (Param n # ps) (s # ss) = (s \<noteq> [] \<and> fits ps ss)"
| "fits _ _ = False"

fun overlap :: "segment list \<Rightarrow> segment list \<Rightarrow> bool" where
  "overlap [] [] = True"
| "overlap (Text t # ps) (Text u # qs) = (t = u \<and> overlap ps qs)"
| "overlap (Text t # ps) (Param n # qs) = overlap ps qs"
| "overlap (Param n # ps) (Text t # qs) = overlap ps qs"
| "overlap (Param n # ps) (Param m # qs) = overlap ps qs"
| "overlap _ _ = False"

lemma fits_overlap: "fits ps ss \<Longrightarrow> fits qs ss \<Longrightarrow> overlap ps qs"
proof (induction ps arbitrary: qs ss)
  case Nil
  then show ?case by (cases ss; cases qs) (auto elim: fits.elims)
next
  case (Cons p ps)
  then show ?case
  proof (cases ss)
    case Nil
    with Cons.prems show ?thesis by (cases p) auto
  next
    case ss: (Cons s rest)
    with Cons.prems obtain q qs' where qs: "qs = q # qs'" by (cases qs) auto
    from Cons.prems ss qs have "fits ps rest" and "fits qs' rest" by (cases p; cases q; auto)+
    then have "overlap ps qs'" by (rule Cons.IH)
    with Cons.prems ss qs show ?thesis by (cases p; cases q) auto
  qed
qed

text \<open>No two routes overlap, so the order of their registration does not matter and no path has two handlers.\<close>

definition apart :: "route list \<Rightarrow> bool" where
  "apart rs \<longleftrightarrow> sorted_wrt (\<lambda>a b. \<not> overlap (fst a) (fst b)) rs"

lemma apart_routes: "apart (api_routes @ networks_routes @ ipmeta_routes)"
  by code_simp

lemma overlap_sym: "overlap ps qs = overlap qs ps"
  by (induction ps qs rule: overlap.induct) auto

lemma sorted_wrt_pair: "sorted_wrt R xs \<Longrightarrow> a \<in> set xs \<Longrightarrow> b \<in> set xs \<Longrightarrow> a = b \<or> R a b \<or> R b a"
  by (induction xs) auto

lemma route_unique:
  assumes "(ps, h) \<in> set (all_routes opts)" and "(qs, k) \<in> set (all_routes opts)" and "fits ps ss" and "fits qs ss"
  shows "h = k"
proof -
  have "apart (all_routes opts)"
    using apart_routes by (auto simp: apart_def all_routes_def sorted_wrt_append)
  then have "(ps, h) = (qs, k) \<or> \<not> overlap ps qs \<or> \<not> overlap qs ps"
    using sorted_wrt_pair [OF _ assms(1,2)] by (fastforce simp: apart_def)
  moreover have "overlap ps qs" using fits_overlap [OF assms(3,4)] .
  ultimately show ?thesis using overlap_sym by blast
qed

section \<open>Accepting connections\<close>

text \<open>
  \<open>run\<close> of the web server socket. Each turn looks at the context, then waits for a connection: \<open>None\<close> if none
  comes any more, the waiting is not ended by the context. An error of \<open>Accept\<close> ends the process.
\<close>

datatype accept_end = ListenerClosed | AcceptFatal | StillWaiting

fun accept_loop :: "(bool \<times> (string + 'conn) option) list \<Rightarrow> 'conn list \<times> accept_end" where
  "accept_loop [] = ([], StillWaiting)"
| "accept_loop ((cancelled, next_conn) # turns) =
     (if cancelled then ([], ListenerClosed)
      else case next_conn of
             None \<Rightarrow> ([], StillWaiting)
           | Some (Inl err) \<Rightarrow> ([], AcceptFatal)
           | Some (Inr conn) \<Rightarrow> (let (cs, e) = accept_loop turns in (conn # cs, e)))"

text \<open>Every connection that comes before the end is served, in order, and the listener is closed only on request.\<close>

lemma accept_loop_serves:
  "fst (accept_loop (map (\<lambda>c. (False, Some (Inr c))) cs @ turns)) = cs @ fst (accept_loop turns)"
  by (induction cs) (simp_all add: split_beta Let_def)

lemma accept_loop_closed: "snd (accept_loop turns) = ListenerClosed \<Longrightarrow> \<exists>r. (True, r) \<in> set turns"
  by (induction turns rule: accept_loop.induct) (auto simp: split_beta Let_def split: if_splits option.splits sum.splits)

end
