(* ===== verification/Dump.thy ===== *)
theory Dump
  imports Store
begin

text \<open>\<^verbatim>\<open>cmd/badger/main.go\<close>: the command that prints the entries of a database under a prefix.\<close>

section \<open>The command\<close>

definition dump_line :: "string \<Rightarrow> string \<Rightarrow> string" where
  "dump_line key value = key @ '' = '' @ value @ [char_of (10 :: nat)]"

text \<open>
  The callback of the transaction prints each item and ends at the first whose value cannot be read. The
  error is dropped, as is that of the transaction.
\<close>

fun dump_items :: "(string \<times> (store_error + string)) list \<Rightarrow> string" where
  "dump_items [] = []"
| "dump_items ((k, Inl err) # items) = []"
| "dump_items ((k, Inr v) # items) = dump_line k v @ dump_items items"

definition badger_dump :: "'db badger_api \<Rightarrow> 'db \<Rightarrow> time \<Rightarrow> string \<Rightarrow> string" where
  "badger_dump B db now p =
     (case bg_items B db now of Inl err \<Rightarrow> [] | Inr items \<Rightarrow> dump_items (badger_scan p items))"

section \<open>What it prints\<close>

lemma dump_items_readable:
  "\<forall>(k, r) \<in> set items. r = Inr (the (f k)) \<Longrightarrow>
     dump_items items = concat (map (\<lambda>k. dump_line k (the (f k))) (map fst items))"
  by (induction items) auto

context badger
begin

lemma scan_sorted:
  assumes "bg_items B db now = Inr items"
  shows "map fst (badger_scan p items) = sorted_list_of_set {k. prefix p k \<and> content db now k \<noteq> None}"
proof -
  have "sorted_wrt (<) (map fst (badger_scan p items))"
    using bg_items_sorted [OF assms] unfolding badger_scan_filter [OF bg_items_sorted [OF assms]]
    by (auto simp: sorted_wrt_map intro: sorted_wrt_filter)
  then show ?thesis
    using sorted_list_of_set.idem_if_sorted_distinct [of "map fst (badger_scan p items)"] scan_keys [OF assms, of p]
    by (simp add: strict_sorted_iff)
qed

lemma dump_all:
  assumes items: "bg_items B db now = Inr items" and readable: "\<forall>(k, r) \<in> set items. \<not> isl r"
  shows "badger_dump B db now p =
    concat (map (\<lambda>k. dump_line k (the (content db now k))) (sorted_list_of_set {k. prefix p k \<and> content db now k \<noteq> None}))"
proof -
  have "\<forall>(k, r) \<in> set (badger_scan p items). r = Inr (the (content db now k))"
  proof (intro ballI, clarify)
    fix k r assume "(k, r) \<in> set (badger_scan p items)"
    then have mem: "(k, r) \<in> set items" using badger_scan_filter [OF bg_items_sorted [OF items]] by simp
    with readable obtain v where "r = Inr v" by (cases r) auto
    with mem bg_items_value [OF items] show "r = Inr (the (content db now k))" by force
  qed
  then show ?thesis
    using dump_items_readable [of "badger_scan p items" "content db now"] scan_sorted [OF items, of p]
    by (simp add: badger_dump_def items)
qed

end

text \<open>
  The command prints exactly the entries under the prefix that have not expired, each once, in the order of their
  keys, when every value can be read.
\<close>

theorem badger_dump_prints:
  assumes "badger B content" and "bg_items B db now = Inr items" and "\<forall>(k, r) \<in> set items. \<not> isl r"
  shows "badger_dump B db now p =
    concat (map (\<lambda>k. dump_line k (the (content db now k))) (sorted_list_of_set {k. prefix p k \<and> content db now k \<noteq> None}))"
  by (rule badger.dump_all [OF assms])

end
