(* ===== verification/Forced.thy ===== *)
theory Forced
  imports Botex
begin

text \<open>
  What the worker for blocked networks and autonomous systems does to the addresses of the history: which of them it
  sends to the block worker. The statistics it sends are those of the address, so nothing changes but the verdict.
\<close>

section \<open>The candidates\<close>

definition candidate :: "('m, 'n, 'db) env \<Rightarrow> block_json \<Rightarrow> (string \<Rightarrow> time \<times> time) \<Rightarrow> 'db \<Rightarrow> string \<times> ip_details \<Rightarrow> bool" where
  "candidate E J now db e = (case e of (ip, d) \<Rightarrow>
     id_force_block d \<or>
     \<not> id_is_blocked d \<and> (\<exists>r. is_blocked_by_asn (en_store E) J (fst (now ip)) (snd (now ip)) db (id_asn d) = Inr (True, r)))"

lemma asn_net_candidates_eq:
  "asn_net_candidates E J now db xs = Inr sts \<Longrightarrow> sts = map (forced_stats \<circ> snd) (filter (candidate E J now db) xs)"
proof (induction xs arbitrary: sts)
  case Nil
  then show ?case by simp
next
  case (Cons e xs)
  obtain ip d where e: "e = (ip, d)" by force
  obtain b r sts' where b: "is_blocked_by_asn (en_store E) J (fst (now ip)) (snd (now ip)) db (id_asn d) = Inr (b, r)"
    and sts': "asn_net_candidates E J now db xs = Inr sts'"
    and sts: "sts = (if \<not> id_force_block d \<and> (id_is_blocked d \<or> \<not> b) then sts' else forced_stats d # sts')"
    using Cons.prems by (auto simp: e split: sum.splits prod.splits if_splits)
  show ?case using Cons.IH [OF sts'] sts b by (auto simp: e candidate_def)
qed

section \<open>A batch of updates\<close>

lemma set_stats_forced [simp]: "set_stats (forced_stats d) d = d"
  by (simp add: set_stats_def forced_stats_def details_stats_def stats.defs)

lemma forced_stats_total [simp]: "st_total (forced_stats d) = id_total d"
  by (simp add: forced_stats_def details_stats_def stats.defs)

text \<open>
  If every address of a batch is in the history and has requests, and none occurs twice, each is decided on its own
  details, and those are sent whose update says so.
\<close>

lemma history_update_sends:
  "history_update E wl force es h = Inr (h', resolves, sends) \<Longrightarrow>
     list_all (\<lambda>(now, now', st). 0 < st_total st \<and> hi_lookup h (ip_string (is_ip st)) \<noteq> None) es \<Longrightarrow>
     distinct (map (\<lambda>(now, now', st). hi_lookup h (ip_string (is_ip st))) es) \<Longrightarrow>
     a \<in> set sends \<longleftrightarrow>
       (\<exists>(now, now', st) \<in> set es. hi_lookup h (ip_string (is_ip st)) = Some a \<and>
          (\<exists>d r. ipd_update (en_config E) wl (en_plugins E) now now' st force (hi_details h a) = Inr (d, r, True)))"
proof (induction es arbitrary: h resolves sends)
  case Nil
  then show ?case by simp
next
  case (Cons e es)
  obtain now now' st where e: "e = (now, now', st)" by (cases e) auto
  obtain b where b: "hi_lookup h (ip_string (is_ip st)) = Some b" and total: "\<not> st_total st \<le> 0"
    using Cons.prems(2) by (auto simp: e)
  obtain d r send rs sds where
    up: "ipd_update (en_config E) wl (en_plugins E) now now' st force (hi_details h b) = Inr (d, r, send)"
    and rest: "history_update E wl force es (hi_set_details b d h) = Inr (h', rs, sds)"
    and sends: "sends = (if send then b # sds else sds)"
    using Cons.prems(1) b total by (auto simp: e split: sum.splits prod.splits)
  have others: "hi_lookup h (ip_string (is_ip st')) \<noteq> Some b" if "(t, t', st') \<in> set es" for t t' st'
    using Cons.prems(3) that b by (force simp: e)
  have IH: "a \<in> set sds \<longleftrightarrow> (\<exists>(t, t', st') \<in> set es. hi_lookup h (ip_string (is_ip st')) = Some a \<and>
      (\<exists>d' r. ipd_update (en_config E) wl (en_plugins E) t t' st' force (hi_details (hi_set_details b d h) a) = Inr (d', r, True)))"
    using Cons.IH [OF rest] Cons.prems(2,3) by (simp add: e)
  let ?Q = "\<lambda>(t, t', st'). hi_lookup h (ip_string (is_ip st')) = Some a \<and>
      (\<exists>d' r. ipd_update (en_config E) wl (en_plugins E) t t' st' force (hi_details h a) = Inr (d', r, True))"
  have "a \<in> set sds \<longleftrightarrow> (\<exists>x \<in> set es. ?Q x)"
    unfolding IH using others by (intro bex_cong) (auto split: prod.splits)
  moreover have "?Q e \<longleftrightarrow> a = b \<and> send" using up b by (auto simp: e)
  ultimately have "a \<in> set sends \<longleftrightarrow> (\<exists>x \<in> set (e # es). ?Q x)" unfolding sends by auto
  then show ?case .
qed

lemma history_update_sends_ex:
  assumes "history_update E wl force es h = Inr (h', resolves, sends)"
    and "list_all (\<lambda>(now, now', st). 0 < st_total st \<and> hi_lookup h (ip_string (is_ip st)) \<noteq> None) es"
    and "distinct (map (\<lambda>(now, now', st). hi_lookup h (ip_string (is_ip st))) es)"
  shows "a \<in> set sends \<longleftrightarrow>
    (\<exists>now now' st. (now, now', st) \<in> set es \<and> hi_lookup h (ip_string (is_ip st)) = Some a \<and>
       (\<exists>d r. ipd_update (en_config E) wl (en_plugins E) now now' st force (hi_details h a) = Inr (d, r, True)))"
  unfolding history_update_sends [OF assms] by (force simp: Bex_def)

section \<open>Property\<close>

lemma forced_update_sends:
  "(\<exists>d' r. ipd_update cfg wl plugins now now' (forced_stats d) True d = Inr (d', r, True)) \<longleftrightarrow>
     id_geoip d \<noteq> None \<and> (\<exists>d' r. should_be_blocked cfg wl plugins now' d = Inr (d', r, True))"
proof (cases "should_be_blocked cfg wl plugins now' d")
  case (Inl p)
  then show ?thesis by (simp add: ipd_update_def)
next
  case (Inr x)
  obtain d1 r1 send where x: "x = (d1, r1, send)" by (cases x) auto
  have "id_geoip d1 = id_geoip d" if send
    using Inr that should_be_blocked_True [of cfg wl plugins now' d d1 r1] by (auto simp: x)
  then show ?thesis using Inr by (auto simp: x ipd_update_def split: option.splits)
qed

lemma hist_inv_entry:
  assumes "hist_inv h" and "(k, b) \<in> set (hi_data h)"
  shows "k = ip_string (id_ip (hi_details h b))" and "hi_lookup h (ip_string (id_ip (hi_details h b))) = Some b"
proof -
  have dist: "distinct (map fst (hi_data h))" and all: "list_all (\<lambda>(k, a). k = ip_string (id_ip (hi_details h a))) (hi_data h)"
    using assms(1) by (auto simp: hist_inv_def list_all_iff)
  show k: "k = ip_string (id_ip (hi_details h b))" using all assms(2) by (auto simp: list_all_iff)
  show "hi_lookup h (ip_string (id_ip (hi_details h b))) = Some b"
    using map_of_is_SomeI [OF dist assms(2)] k by (simp add: hi_lookup_def)
qed

lemma batch_entry:
  "(u, u', st) \<in> set (map (\<lambda>i. (fst (upd i), snd (upd i), map f xs ! i)) [0..<length (map f xs)]) \<longleftrightarrow>
     (\<exists>i < length xs. u = fst (upd i) \<and> u' = snd (upd i) \<and> st = f (xs ! i))"
  by auto


section \<open>Witness\<close>

definition wit_as_db :: memdb where
  "wit_as_db = RBT.insert (asn_namespace 7) (''x'', None) RBT.empty"

lemma wit_as_blocked: "\<exists>r. is_blocked_by_asn mem_kv num_block_json now now' wit_as_db (Some wit_as) = Inr (True, r)"
proof -
  have "asn_number wit_as = 7" by (simp add: wit_as_def)
  then have "kv_get mem_kv wit_as_db now (asn_namespace (asn_number wit_as)) = Inr ''x''"
    by (simp add: wit_as_db_def mem_simps)
  then show ?thesis by (simp add: is_blocked_by_asn_def get_asn_def num_block_json_def num_json_def)
qed

lemma wit_each: "history_each wit_h1 = [(''10.1.2.3'', wit_details ''bot.example.org'' 301)]"
  by (simp add: history_each_def wit_h1_details) (simp add: wit_h1_def wit_h1_details [unfolded wit_h1_def])

lemma wit_candidate: "candidate wit_env num_block_json now wit_as_db (k, wit_details ''bot.example.org'' 301)"
proof -
  have "id_asn (wit_details ''bot.example.org'' 301) = Some wit_as" by (simp add: wit_defs)
  then show ?thesis
    using wit_as_blocked [of "fst (now k)" "snd (now k)"] by (simp add: candidate_def wit_d_fields wit_env_store)
qed

lemma wit_wanted:
  "\<exists>d. should_be_blocked wit_cfg new_whitelist [] 1001 (wit_details ''bot.example.org'' 301) = Inr (d, False, True)"
  using wit_not_wl [of "''bot.example.org''" 301]
  by (simp add: should_be_blocked_def stale_def block_verdict_def Let_def) (simp add: wit_defs i64_def)


end
