(* ===== verification/WebsocketPool.thy ===== *)
theory WebsocketPool
  imports Api
begin

text \<open>
  The web sockets of \<^verbatim>\<open>api.go\<close>: the channel \<open>WebsocketChan\<close> of \<^verbatim>\<open>resources.go\<close>, the pool of connections, one
  handler per connection, and the goroutine that writes each message of the channel to every connection. A
  connection that cannot be written to is closed and leaves the pool, and its handler is woken up to return; the
  goroutine holds the mutex of the pool while it waits for the handler. The steps of all of them are the relation
  \<open>pool_step\<close>; what the operating system answers to a write is the argument \<open>writes\<close>.
\<close>

section \<open>State and operations\<close>

text \<open>The four kinds of messages the program sends to its web sockets.\<close>

datatype websocket_item =
    NewIP nat
  | BlockedIPUpdated ip_block_message
  | ExpiredIP string
  | BlockedIPsUpdated "ip_block_message list"

text \<open>
  \<open>po_starting\<close> are the handlers that have registered their connection and not yet sent the initial data,
  \<open>po_waiting\<close> those that wait on \<open>doneChan\<close>. \<open>po_written\<close> records what has been written, \<open>po_stopped\<close> that
  the goroutine has returned.
\<close>

record 'c pool =
  po_chan :: "websocket_item list"
  po_clients :: "'c list"
  po_starting :: "'c list"
  po_waiting :: "'c list"
  po_written :: "('c \<times> websocket_item) list"
  po_stopped :: bool

definition new_pool :: "'c pool" where
  "new_pool = \<lparr>po_chan = [], po_clients = [], po_starting = [], po_waiting = [], po_written = [], po_stopped = False\<rparr>"

text \<open>The buffer of the channel, of \<open>NewResources\<close>.\<close>

definition chan_size :: nat where
  "chan_size = 100"

text \<open>\<open>sendBlockedIPsToWebsocket\<close>: the message is dropped if the block list cannot be read or the channel is full.\<close>

definition send_blocked_ips :: "'db kvstore_api \<Rightarrow> block_json \<Rightarrow> time \<Rightarrow> 'db \<Rightarrow> websocket_item list
    \<Rightarrow> websocket_item list" where
  "send_blocked_ips K J now db chan =
     (case all_ips K J now db of
        Inl err \<Rightarrow> chan
      | Inr ips \<Rightarrow> if length chan < chan_size then chan @ [BlockedIPsUpdated ips] else chan)"

text \<open>\<open>websocketHandler\<close>: registering the connection; then sending the initial data and waiting on \<open>doneChan\<close>.\<close>

definition register_client :: "'c \<Rightarrow> 'c pool \<Rightarrow> 'c pool" where
  "register_client c p = p\<lparr>po_clients := c # po_clients p, po_starting := c # po_starting p\<rparr>"

definition send_initial :: "'db kvstore_api \<Rightarrow> block_json \<Rightarrow> time \<Rightarrow> 'db \<Rightarrow> 'c \<Rightarrow> 'c pool \<Rightarrow> 'c pool" where
  "send_initial K J now db c p =
     p\<lparr>po_chan := send_blocked_ips K J now db (po_chan p),
       po_starting := removeAll c (po_starting p), po_waiting := c # po_waiting p\<rparr>"

text \<open>The loop over the connections for one message.\<close>

fun broadcast :: "('c \<Rightarrow> bool) \<Rightarrow> websocket_item \<Rightarrow> 'c list \<Rightarrow> 'c pool \<Rightarrow> 'c pool" where
  "broadcast writes item [] p = p"
| "broadcast writes item (c # cs) p =
     broadcast writes item cs
       (if writes c then p\<lparr>po_written := po_written p @ [(c, item)]\<rparr>
        else p\<lparr>po_clients := removeAll c (po_clients p), po_waiting := removeAll c (po_waiting p)\<rparr>)"

text \<open>The loop when the context is done: every connection is closed, its handler notified.\<close>

fun close_all :: "'c list \<Rightarrow> 'c pool \<Rightarrow> 'c pool" where
  "close_all [] p = p"
| "close_all (c # cs) p =
     close_all cs (p\<lparr>po_clients := removeAll c (po_clients p), po_waiting := removeAll c (po_waiting p)\<rparr>)"

text \<open>
  A handler registers its connection (\<open>connect\<close>), then sends the initial data and waits (\<open>initial\<close>). A loop that
  has to notify a handler needs it to be waiting: the channel of a handler is not buffered.
\<close>

inductive pool_step :: "'db kvstore_api \<Rightarrow> block_json \<Rightarrow> 'c pool \<Rightarrow> 'c pool \<Rightarrow> bool"
  for K :: "'db kvstore_api" and J :: block_json where
  enqueue: "length (po_chan p) < chan_size \<Longrightarrow> pool_step K J p (p\<lparr>po_chan := po_chan p @ [item]\<rparr>)"
| connect: "c \<notin> set (po_clients p) \<union> set (po_starting p) \<union> set (po_waiting p) \<Longrightarrow>
    pool_step K J p (register_client c p)"
| initial: "c \<in> set (po_starting p) \<Longrightarrow> pool_step K J p (send_initial K J now db c p)"
| deliver: "\<not> po_stopped p \<Longrightarrow> po_chan p = item # rest \<Longrightarrow>
    list_all (\<lambda>c. writes c \<or> c \<in> set (po_waiting p)) (po_clients p) \<Longrightarrow>
    pool_step K J p (broadcast writes item (po_clients p) (p\<lparr>po_chan := rest\<rparr>))"
| stop: "\<not> po_stopped p \<Longrightarrow> list_all (\<lambda>c. c \<in> set (po_waiting p)) (po_clients p) \<Longrightarrow>
    pool_step K J p ((close_all (po_clients p) p)\<lparr>po_stopped := True\<rparr>)"

section \<open>What the loops do\<close>

lemma broadcast_eq:
  "broadcast writes item cs p =
     p\<lparr>po_clients := filter (\<lambda>c. c \<in> set cs \<longrightarrow> writes c) (po_clients p),
       po_waiting := filter (\<lambda>c. c \<in> set cs \<longrightarrow> writes c) (po_waiting p),
       po_written := po_written p @ map (\<lambda>c. (c, item)) (filter writes cs)\<rparr>"
proof (induction cs arbitrary: p)
  case (Cons c cs)
  show ?case
  proof (cases "writes c")
    case True
    then have "(\<lambda>x. x \<in> set (c # cs) \<longrightarrow> writes x) = (\<lambda>x. x \<in> set cs \<longrightarrow> writes x)" by (intro ext) auto
    with True show ?thesis by (simp only: broadcast.simps Cons.IH if_True) simp
  next
    case False
    then have "filter (\<lambda>x. x \<in> set (c # cs) \<longrightarrow> writes x) xs = filter (\<lambda>x. x \<in> set cs \<longrightarrow> writes x) (removeAll c xs)" for xs
      by (auto simp: removeAll_filter_not_eq intro!: filter_cong)
    with False show ?thesis by (simp only: broadcast.simps Cons.IH if_False) simp
  qed
qed simp

lemma close_all_eq:
  "close_all cs p = p\<lparr>po_clients := filter (\<lambda>c. c \<notin> set cs) (po_clients p),
     po_waiting := filter (\<lambda>c. c \<notin> set cs) (po_waiting p)\<rparr>"
proof (induction cs arbitrary: p)
  case (Cons c cs)
  have "filter (\<lambda>x. x \<notin> set (c # cs)) xs = filter (\<lambda>x. x \<notin> set cs) (removeAll c xs)" for xs
    by (auto simp: removeAll_filter_not_eq intro!: filter_cong)
  then show ?case by (simp only: close_all.simps Cons.IH) simp
qed simp

section \<open>The invariant of the pool\<close>

definition pool_inv :: "'c pool \<Rightarrow> bool" where
  "pool_inv p \<longleftrightarrow> distinct (po_clients p) \<and> distinct (po_starting p @ po_waiting p) \<and>
     set (po_clients p) = set (po_starting p) \<union> set (po_waiting p) \<and> length (po_chan p) \<le> chan_size"

lemma send_blocked_ips_length: "length chan \<le> chan_size \<Longrightarrow> length (send_blocked_ips K J now db chan) \<le> chan_size"
  by (auto simp: send_blocked_ips_def split: sum.splits)

lemma pool_step_inv:
  assumes "pool_step K J p p'" and "pool_inv p"
  shows "pool_inv p'"
  using assms
proof (cases rule: pool_step.cases)
  case (enqueue item)
  with assms(2) show ?thesis by (simp add: pool_inv_def)
next
  case (connect c)
  with assms(2) show ?thesis by (auto simp: pool_inv_def register_client_def)
next
  case (initial c now db)
  with assms(2) show ?thesis
    by (auto simp: pool_inv_def send_initial_def send_blocked_ips_length distinct_removeAll)
next
  case (deliver item rest writes)
  with assms(2) show ?thesis by (auto simp: pool_inv_def broadcast_eq list_all_iff)
next
  case stop
  with assms(2) have "set (po_starting p) \<subseteq> set (po_waiting p)" "set (po_starting p) \<inter> set (po_waiting p) = {}"
    by (auto simp: pool_inv_def list_all_iff)
  then have "po_starting p = []" by (metis inf.absorb1 set_empty2)
  with stop assms(2) show ?thesis by (auto simp: pool_inv_def close_all_eq)
qed

abbreviation pool_reachable :: "'db kvstore_api \<Rightarrow> block_json \<Rightarrow> 'c pool \<Rightarrow> bool" where
  "pool_reachable K J \<equiv> (pool_step K J)\<^sup>*\<^sup>* new_pool"

lemma pool_steps_inv: "(pool_step K J)\<^sup>*\<^sup>* p p' \<Longrightarrow> pool_inv p \<Longrightarrow> pool_inv p'"
  by (induction rule: rtranclp_induct) (auto intro: pool_step_inv)

lemma new_pool_inv: "pool_inv new_pool"
  by (simp add: pool_inv_def new_pool_def)

section \<open>Progress\<close>

text \<open>Once all handlers wait, every message can be delivered, whatever the writes answer.\<close>

lemma send_blocked_ips_prefix: "\<exists>more. send_blocked_ips K J now db chan = chan @ more"
  by (auto simp: send_blocked_ips_def split: sum.splits)

lemma handlers_wait:
  "pool_inv p \<Longrightarrow> \<exists>p' more. (pool_step K J)\<^sup>*\<^sup>* p p' \<and> po_starting p' = [] \<and> po_chan p' = po_chan p @ more \<and>
     po_clients p' = po_clients p \<and> po_written p' = po_written p \<and> po_stopped p' = po_stopped p"
proof (induction "length (po_starting p)" arbitrary: p rule: less_induct)
  case less
  show ?case
  proof (cases "po_starting p")
    case Nil
    then show ?thesis by (intro exI [of _ p] exI [of _ "[]"]) simp
  next
    case (Cons c cs)
    let ?chan = "send_blocked_ips K J 0 undefined (po_chan p)"
    let ?p = "send_initial K J 0 undefined c p"
    have step: "pool_step K J p ?p" using Cons by (intro pool_step.initial) simp
    moreover have "length (po_starting ?p) < length (po_starting p)"
      using Cons by (simp add: send_initial_def le_imp_less_Suc)
    moreover have "pool_inv ?p" using step less.prems by (rule pool_step_inv)
    ultimately obtain p' more where p': "(pool_step K J)\<^sup>*\<^sup>* ?p p'" "po_starting p' = []"
      "po_chan p' = po_chan ?p @ more" "po_clients p' = po_clients ?p" "po_written p' = po_written ?p"
      "po_stopped p' = po_stopped ?p"
      using less.hyps by blast
    obtain more' where "?chan = po_chan p @ more'"
      using send_blocked_ips_prefix [of K J 0 undefined "po_chan p"] by blast
    with p' converse_rtranclp_into_rtranclp [of "pool_step K J", OF step p'(1)] show ?thesis
      by (intro exI [of _ p'] exI [of _ "more' @ more"]) (simp add: send_initial_def)
  qed
qed

lemma deliver_head:
  assumes inv: "pool_inv p" and "\<not> po_stopped p" and chan: "po_chan p = item # rest"
  shows "\<exists>p' more. (pool_step K J)\<^sup>*\<^sup>* p p' \<and> pool_inv p' \<and> \<not> po_stopped p' \<and> po_chan p' = rest @ more \<and>
    po_clients p' = filter writes (po_clients p) \<and>
    po_written p' = po_written p @ map (\<lambda>c. (c, item)) (filter writes (po_clients p))"
proof -
  obtain p1 more where p1: "(pool_step K J)\<^sup>*\<^sup>* p p1" "po_starting p1 = []" "po_chan p1 = po_chan p @ more"
    "po_clients p1 = po_clients p" "po_written p1 = po_written p" "po_stopped p1 = po_stopped p"
    using handlers_wait [OF inv] by blast
  let ?p = "broadcast writes item (po_clients p1) (p1\<lparr>po_chan := rest @ more\<rparr>)"
  have inv1: "pool_inv p1" using p1(1) inv by (rule pool_steps_inv)
  then have "list_all (\<lambda>c. writes c \<or> c \<in> set (po_waiting p1)) (po_clients p1)"
    using p1(2) by (simp add: pool_inv_def list_all_iff)
  then have step: "pool_step K J p1 ?p" using p1 chan assms(2) by (intro pool_step.deliver) simp_all
  have filter: "filter (\<lambda>c. c \<in> set xs \<longrightarrow> writes c) xs = filter writes xs" for xs
    by (rule filter_cong) auto
  have "po_clients ?p = filter writes (po_clients p)" "po_chan ?p = rest @ more" "\<not> po_stopped ?p"
    "po_written ?p = po_written p @ map (\<lambda>c. (c, item)) (filter writes (po_clients p))"
    using p1 assms(2) by (simp_all add: broadcast_eq filter)
  then show ?thesis
    using rtranclp.rtrancl_into_rtrancl [OF p1(1) step] pool_step_inv [OF step inv1]
    by (intro exI [of _ ?p] exI [of _ more]) simp
qed

lemma deliver_queued:
  assumes "pool_inv p" and "\<not> po_stopped p" and "po_chan p = before @ item # rest"
  shows "\<exists>p'. (pool_step K J)\<^sup>*\<^sup>* p p' \<and> (\<forall>c \<in> set (po_clients p). writes c \<longrightarrow> (c, item) \<in> set (po_written p'))"
  using assms
proof (induction before arbitrary: p rest)
  case Nil
  then have "po_chan p = item # rest" by simp
  from deliver_head [OF Nil.prems(1,2) this, of K J writes] show ?case by auto
next
  case (Cons i before)
  have "po_chan p = i # (before @ item # rest)" using Cons.prems(3) by simp
  from deliver_head [OF Cons.prems(1,2) this, of K J writes]
  obtain p1 more where p1: "(pool_step K J)\<^sup>*\<^sup>* p p1" "pool_inv p1" "\<not> po_stopped p1"
    "po_chan p1 = before @ item # (rest @ more)" "po_clients p1 = filter writes (po_clients p)"
    by auto
  from Cons.IH [OF p1(2,3,4)] obtain p2 where p2: "(pool_step K J)\<^sup>*\<^sup>* p1 p2"
    "\<forall>c \<in> set (po_clients p1). writes c \<longrightarrow> (c, item) \<in> set (po_written p2)" by blast
  then have "\<forall>c \<in> set (po_clients p). writes c \<longrightarrow> (c, item) \<in> set (po_written p2)" using p1(5) by simp
  with rtranclp_trans [OF p1(1) p2(1)] show ?case by blast
qed

section \<open>Properties\<close>

text \<open>
  C25: In every reachable state of the web sockets, each connection of the pool has exactly one handler and each
  handler that still runs has its connection in the pool, so no handler is left waiting for ever; and the channel
  never holds more than its buffer.
\<close>

theorem handlers_registered:
  assumes "pool_reachable K J p"
  shows "distinct (po_clients p) \<and> distinct (po_starting p @ po_waiting p) \<and>
    set (po_clients p) = set (po_starting p) \<union> set (po_waiting p) \<and> length (po_chan p) \<le> 100"
  using pool_steps_inv [OF assms new_pool_inv] by (simp add: pool_inv_def chan_size_def)

text \<open>
  C24: No message gets stuck: from every reachable state in which the goroutine runs, every message in the channel
  can be brought to every connection of the pool whose writes succeed, whichever writes fail on the way. The
  goroutine, which waits for handlers while it holds the mutex of the pool, does not block for ever.
\<close>

theorem messages_get_delivered:
  assumes "pool_reachable K J p" and "\<not> po_stopped p" and "item \<in> set (po_chan p)"
  shows "\<exists>p'. (pool_step K J)\<^sup>*\<^sup>* p p' \<and> (\<forall>c \<in> set (po_clients p). writes c \<longrightarrow> (c, item) \<in> set (po_written p'))"
proof -
  obtain before rest where "po_chan p = before @ item # rest" using assms(3) by (meson split_list)
  with deliver_queued [OF pool_steps_inv [OF assms(1) new_pool_inv] assms(2)] show ?thesis by blast
qed

section \<open>Witnesses\<close>

definition wit_pool :: "nat pool" where
  "wit_pool = new_pool\<lparr>po_chan := [NewIP 3, ExpiredIP ''10.1.2.3''], po_clients := [1], po_starting := [1]\<rparr>"

lemma wit_pool_reachable: "pool_reachable mem_kv num_block_json wit_pool"
proof -
  let ?K = "mem_kv" and ?J = "num_block_json"
  let ?p1 = "new_pool\<lparr>po_clients := [1], po_starting := [1]\<rparr> :: nat pool"
  let ?p2 = "?p1\<lparr>po_chan := [NewIP 3]\<rparr>"
  have "pool_reachable ?K ?J (new_pool :: nat pool)" by simp
  also have "pool_step ?K ?J new_pool ?p1"
    using pool_step.connect [of 1 "new_pool :: nat pool" ?K ?J] by (simp add: new_pool_def register_client_def)
  also have "pool_step ?K ?J ?p1 ?p2"
    using pool_step.enqueue [of ?p1 ?K ?J "NewIP 3"] by (simp add: new_pool_def chan_size_def)
  also have "pool_step ?K ?J ?p2 wit_pool"
    using pool_step.enqueue [of ?p2 ?K ?J "ExpiredIP ''10.1.2.3''"] by (simp add: new_pool_def chan_size_def wit_pool_def)
  finally show ?thesis .
qed

lemma handlers_registered_witness: "set (po_clients wit_pool) = set (po_starting wit_pool) \<union> set (po_waiting wit_pool)"
  using handlers_registered [OF wit_pool_reachable] by simp

lemma messages_get_delivered_witness:
  "\<exists>p'. (pool_step mem_kv num_block_json)\<^sup>*\<^sup>* wit_pool p' \<and> (1, ExpiredIP ''10.1.2.3'') \<in> set (po_written p')"
  using messages_get_delivered [OF wit_pool_reachable, of "ExpiredIP ''10.1.2.3''" "\<lambda>_. True"]
  by (simp add: wit_pool_def new_pool_def)

end
