(* ===== verification/LogReplay.thy ===== *)
theory LogReplay
  imports Botex Encodings
begin

text \<open>
  \<^verbatim>\<open>logreplay.go\<close>: feeding a log file into the application, at first with time stamps spread over the time that
  the windows cover, then in an endless loop with the present time. The parser of log lines (gonx) and its
  entries are a parameter with a contract; of Go's \<open>net/url\<close>, \<open>url.Parse\<close> is modelled except for the validation
  of a host, the argument \<open>authority_ok\<close>. \<open>log.Fatal\<close> ends the program like a panic.
\<close>

section \<open>URLs\<close>

text \<open>\<open>strings.Cut\<close> at one character: what comes before it, and what comes after it, if it is there.\<close>

definition cut :: "char \<Rightarrow> string \<Rightarrow> string \<times> string" where
  "cut sep s = (takeWhile (\<lambda>c. c \<noteq> sep) s, drop 1 (dropWhile (\<lambda>c. c \<noteq> sep) s))"

text \<open>The unescaping of paths and fragments, which leaves \<open>+\<close> alone.\<close>

fun path_unescape :: "string \<Rightarrow> string option" where
  "path_unescape [] = Some []"
| "path_unescape (c # s) =
     (if c = CHR ''%'' then
        (case hex_byte s of None \<Rightarrow> None | Some b \<Rightarrow> map_option ((#) b) (path_unescape (drop 2 s)))
      else map_option ((#) c) (path_unescape s))"

definition ascii_letter :: "char \<Rightarrow> bool" where
  "ascii_letter c \<longleftrightarrow> (let n = (of_char c :: nat) in n \<in> {65..90} \<union> {97..122})"

text \<open>\<open>getScheme\<close>: the loop over the characters, with those already read; an error is \<open>None\<close>.\<close>

fun get_scheme :: "string \<Rightarrow> string \<Rightarrow> string \<Rightarrow> (string \<times> string) option" where
  "get_scheme raw seen [] = Some ([], raw)"
| "get_scheme raw seen (c # s) =
     (if ascii_letter c then get_scheme raw (seen @ [c]) s
      else if is_digit c \<or> c = CHR ''+'' \<or> c = CHR ''-'' \<or> c = CHR ''.'' then
        (if seen = [] then Some ([], raw) else get_scheme raw (seen @ [c]) s)
      else if c = CHR '':'' then (if seen = [] then None else Some (seen, s))
      else Some ([], raw))"

text \<open>\<open>url.Parse\<close>: the path and the raw query, all that the program reads.\<close>

definition url_parse :: "(string \<Rightarrow> bool) \<Rightarrow> string \<Rightarrow> (string \<times> string) option" where
  "url_parse authority_ok raw =
     (let (u, fragment) = cut (CHR ''#'') raw
      in if list_ex (\<lambda>c. (of_char c :: nat) < 32 \<or> (of_char c :: nat) = 127) u then None
         else if path_unescape fragment = None then None
         else if u = ''*'' then Some (u, [])
         else case get_scheme u [] u of
                None \<Rightarrow> None
              | Some (scheme, rest0) \<Rightarrow>
                  let (rest, query) = cut (CHR ''?'') rest0;
                      segment = fst (cut (CHR ''/'') rest)
                  in if rest = [] \<or> hd rest \<noteq> CHR ''/'' then
                       if scheme \<noteq> [] then Some ([], query)
                       else if CHR '':'' \<in> set segment then None
                       else map_option (\<lambda>path. (path, query)) (path_unescape rest)
                     else if (scheme \<noteq> [] \<or> take 3 rest \<noteq> ''///'') \<and> take 2 rest = ''//'' then
                       let authority = takeWhile (\<lambda>c. c \<noteq> CHR ''/'') (drop 2 rest);
                           rest' = dropWhile (\<lambda>c. c \<noteq> CHR ''/'') (drop 2 rest)
                       in if authority_ok authority then map_option (\<lambda>path. (path, query)) (path_unescape rest')
                          else None
                     else map_option (\<lambda>path. (path, query)) (path_unescape rest))"

section \<open>Anonymizing\<close>

text \<open>
  \<open>anonymizeRegexp.ReplaceAllString(s, "x")\<close>: every character but \<open>/\<close>, \<open>=\<close>, \<open>?\<close>, \<open>&\<close> and \<open>.\<close> becomes an \<open>x\<close>. A
  character of several bytes is one match; in the bytes of its encoding, those after the first are the
  continuation bytes.
\<close>

definition kept_char :: "char \<Rightarrow> bool" where
  "kept_char c \<longleftrightarrow> c \<in> set ''/=?&.''"

definition continuation :: "char \<Rightarrow> bool" where
  "continuation c \<longleftrightarrow> 128 \<le> (of_char c :: nat) \<and> (of_char c :: nat) < 192"

definition anonymize :: "string \<Rightarrow> string" where
  "anonymize s = map (\<lambda>c. if kept_char c then c else CHR ''x'') (filter (\<lambda>c. \<not> continuation c) s)"

text \<open>\<open>strings.LastIndex(path, ".")\<close> splits the path in what comes before and after its last dot.\<close>

definition last_dot :: "string \<Rightarrow> (string \<times> string) option" where
  "last_dot s =
     (let ext = rev (takeWhile (\<lambda>c. c \<noteq> CHR ''.'') (rev s))
      in if CHR ''.'' \<in> set s then Some (take (length s - length ext - 1) s, ext) else None)"

definition anonymize_url :: "(string \<Rightarrow> bool) \<Rightarrow> string \<Rightarrow> panic + string" where
  "anonymize_url authority_ok url =
     (case url_parse authority_ok url of
        None \<Rightarrow> Inl (InvalidInput url)
      | Some (uri_path, raw_query) \<Rightarrow>
          let path = (case last_dot uri_path of
                        Some (stem, ext) \<Rightarrow> anonymize stem @ ''.'' @ ext
                      | None \<Rightarrow> anonymize uri_path)
          in Inr (if raw_query \<noteq> [] then path @ ''?'' @ anonymize raw_query else path))"

section \<open>The request line\<close>

text \<open>
  The submatches 1 and 2 of \<open>^([A-Z]+)\s+(.+?)\s+(HTTP/\d+\.\d+)$\<close>. The match Go prefers takes the most letters,
  then the most white space for which the rest matches, then the shortest URL.
\<close>

definition is_upper_letter :: "char \<Rightarrow> bool" where
  "is_upper_letter c \<longleftrightarrow> (of_char c :: nat) \<in> {65..90}"

definition re_space :: "char \<Rightarrow> bool" where
  "re_space c \<longleftrightarrow> (of_char c :: nat) \<in> {9, 10, 12, 13, 32}"

definition http_version :: "string \<Rightarrow> bool" where
  "http_version s =
     (let major = takeWhile is_digit (drop 5 s); rest = dropWhile is_digit (drop 5 s)
      in take 5 s = ''HTTP/'' \<and> major \<noteq> [] \<and> rest \<noteq> [] \<and> hd rest = CHR ''.'' \<and> tl rest \<noteq> [] \<and>
         list_all is_digit (tl rest))"

definition version_follows :: "string \<Rightarrow> bool" where
  "version_follows s \<longleftrightarrow> s \<noteq> [] \<and> re_space (hd s) \<and> http_version (dropWhile re_space s)"

definition shortest_url :: "string \<Rightarrow> string option" where
  "shortest_url s =
     map_option (\<lambda>n. take n s)
       (List.find (\<lambda>n. version_follows (drop n s) \<and> list_all (\<lambda>c. (of_char c :: nat) \<noteq> 10) (take n s)) [1..<length s])"

definition request_line :: "string \<Rightarrow> (string \<times> string) option" where
  "request_line s =
     (let verb = takeWhile is_upper_letter s;
          rest = dropWhile is_upper_letter s;
          spaces = length (takeWhile re_space rest)
      in if verb = [] then None
         else case List.find (\<lambda>k. shortest_url (drop k rest) \<noteq> None) (rev [1..<Suc spaces]) of
                None \<Rightarrow> None
              | Some k \<Rightarrow> map_option (Pair verb) (shortest_url (drop k rest)))"

section \<open>From log lines to requests\<close>

text \<open>An entry answers a field with its value and whether there was an error.\<close>

type_synonym log_entry = "string \<Rightarrow> string \<times> bool"

text \<open>What gonx promises: a field that is not in the entry is an error, with the empty string as its value.\<close>

locale log_parser =
  fixes parse :: "string \<Rightarrow> log_entry option"
  assumes missing_field: "parse l = Some entry \<Longrightarrow> snd (entry name) \<Longrightarrow> fst (entry name) = []"

text \<open>An entry is a map from names to values, here of a line of pairs of a name and a value.\<close>

definition entry_of :: "(string \<times> string) list \<Rightarrow> log_entry" where
  "entry_of kvs name = (case map_of kvs name of None \<Rightarrow> ([], True) | Some v \<Rightarrow> (v, False))"

definition keyed_line :: "string \<Rightarrow> log_entry option" where
  "keyed_line l =
     (if list_all (\<lambda>f. CHR ''='' \<in> set f) (split_on (char_of (9 :: nat)) l)
      then Some (entry_of (map (cut (CHR ''='')) (split_on (char_of (9 :: nat)) l))) else None)"

interpretation keyed: log_parser keyed_line
  by unfold_locales (auto simp: keyed_line_def entry_of_def split: if_splits option.splits)

text \<open>
  The body of the loop, as far as it does not depend on the time: the request of one line without its time stamp,
  \<open>None\<close> when the line is passed over. The second value of \<open>logEntry.Field\<close> is the error.
\<close>

definition entry_remote :: "log_entry \<Rightarrow> string option" where
  "entry_remote entry =
     (let (remote, err) = entry ''remote_addr''; (xff, err') = entry ''http_x_forwarded_for'';
          remote' = (if err' \<and> xff \<noteq> [] then xff else remote)
      in if err \<or> remote' = [] then None else Some (fst (cut (CHR '','') remote')))"

definition line_request :: "(string \<Rightarrow> log_entry option) \<Rightarrow> (string \<Rightarrow> bool) \<Rightarrow> bool \<Rightarrow> string
    \<Rightarrow> panic + request option" where
  "line_request parse authority_ok anon l =
     (case parse l of
        None \<Rightarrow> Inr None
      | Some entry \<Rightarrow>
          (case entry_remote entry of
             None \<Rightarrow> Inr None
           | Some remote \<Rightarrow>
               let (http_request, err) = entry ''request''
               in if err then Inr None
                  else case request_line http_request of
                         None \<Rightarrow> Inr None
                       | Some (verb, url) \<Rightarrow>
                           (case (if anon then anonymize_url authority_ok url else Inr url) of
                              Inl p \<Rightarrow> Inl p
                            | Inr url' \<Rightarrow>
                                let (host, err') = entry ''host''
                                in Inr (Some \<lparr>rq_url = url', rq_host = (if err' \<or> host = [] \<or> anon then ''scw.test'' else host),
                                     rq_agent = fst (entry ''http_user_agent''), rq_source = remote, rq_method = verb,
                                     rq_seq = 0, rq_timestamp = 0, rq_time = zero_time, rq_asn = None,
                                     rq_is_app = False\<rparr>))))"

section \<open>The two passes\<close>

text \<open>The requests of the first pass: each gets the running time stamp, which then moves on.\<close>

fun first_pass :: "(string \<Rightarrow> panic + request option) \<Rightarrow> duration \<Rightarrow> string list \<Rightarrow> time \<Rightarrow> panic + request list" where
  "first_pass req time_per_line [] t_start = Inr []"
| "first_pass req time_per_line (l # ls) t_start =
     (case req l of
        Inl p \<Rightarrow> Inl p
      | Inr None \<Rightarrow> first_pass req time_per_line ls t_start
      | Inr (Some r) \<Rightarrow>
          (case first_pass req time_per_line ls (t_start + time_per_line) of
             Inl p \<Rightarrow> Inl p
           | Inr rs \<Rightarrow> Inr (r\<lparr>rq_timestamp := unix_nano t_start\<rparr> # rs)))"

text \<open>
  The division by the number of lines panics for an empty file. \<open>int(tOffset) / lines\<close> is a division of 64-bit
  integers.
\<close>

definition time_per_line :: "config \<Rightarrow> string list \<Rightarrow> panic + duration" where
  "time_per_line cfg lines =
     (if lines = [] then Inl DivideByZero
      else Inr (i64 (i64 (cf_window_size cfg * cf_num_windows cfg) sdiv int (length lines))))"

definition replay_requests :: "(string \<Rightarrow> panic + request option) \<Rightarrow> config \<Rightarrow> time \<Rightarrow> string list
    \<Rightarrow> panic + request list" where
  "replay_requests req cfg now lines =
     (case time_per_line cfg lines of
        Inl p \<Rightarrow> Inl p
      | Inr d \<Rightarrow> first_pass req d lines (now + i64 (- 1 * i64 (cf_window_size cfg * cf_num_windows cfg))))"

text \<open>One round of the endless loop: the same lines, each with the time at which it is handled.\<close>

fun next_pass :: "(string \<Rightarrow> panic + request option) \<Rightarrow> (nat \<Rightarrow> time) \<Rightarrow> nat \<Rightarrow> string list \<Rightarrow> panic + request list" where
  "next_pass req now i [] = Inr []"
| "next_pass req now i (l # ls) =
     (case req l of
        Inl p \<Rightarrow> Inl p
      | Inr None \<Rightarrow> next_pass req now (Suc i) ls
      | Inr (Some r) \<Rightarrow>
          (case next_pass req now (Suc i) ls of
             Inl p \<Rightarrow> Inl p
           | Inr rs \<Rightarrow> Inr (r\<lparr>rq_timestamp := unix_nano (now i)\<rparr> # rs)))"

text \<open>The requests are handled one after the other, each at its own clock readings.\<close>

fun handle_all :: "('m, 'n, 'db) env \<Rightarrow> whitelist \<Rightarrow> (nat \<Rightarrow> add_clock) \<Rightarrow> nat \<Rightarrow> request list \<Rightarrow> ('m, 'n) history \<Rightarrow> 'db
    \<Rightarrow> panic + ('m, 'n) history \<times> 'db" where
  "handle_all E wl ck i [] h db = Inr (h, db)"
| "handle_all E wl ck i (r # rs) h db =
     (case handle_request E wl (ck i) r h db of
        Inl p \<Rightarrow> Inl p
      | Inr (h', db', res) \<Rightarrow> handle_all E wl ck (Suc i) rs h' db')"

section \<open>Lemmas\<close>

lemma first_pass_stamps:
  "first_pass req d ls t = Inr rs \<Longrightarrow>
     length rs \<le> length ls \<and> map rq_timestamp rs = map (\<lambda>i. unix_nano (t + int i * d)) [0..<length rs]"
proof (induction ls arbitrary: t rs)
  case (Cons l ls)
  show ?case
  proof (cases "req l")
    case (Inr ro)
    show ?thesis
    proof (cases ro)
      case None
      with Inr Cons.prems have "first_pass req d ls t = Inr rs" by simp
      from Cons.IH [OF this] show ?thesis by simp
    next
      case (Some r)
      with Inr Cons.prems obtain rs' where rs': "first_pass req d ls (t + d) = Inr rs'"
        and rs: "rs = r\<lparr>rq_timestamp := unix_nano t\<rparr> # rs'" by (auto split: sum.splits)
      have "[0..<length rs] = 0 # map Suc [0..<length rs']" by (simp add: rs map_Suc_upt upt_conv_Cons del: upt_Suc)
      with Cons.IH [OF rs'] show ?thesis by (simp add: rs comp_def algebra_simps)
    qed
  qed (use Cons.prems in simp)
qed simp

lemma first_pass_isl: "isl (first_pass req d ls t) \<longleftrightarrow> (\<exists>l \<in> set ls. isl (req l))"
proof (induction ls arbitrary: t)
  case (Cons l ls)
  show ?case
    by (cases "req l"; simp add: Cons.IH split: option.splits sum.splits)
      (metis Cons.IH isl_def sum.disc(2))+
qed simp

lemma line_request_plain: "\<not> isl (line_request parse ok False l)"
  by (auto simp: line_request_def Let_def split: option.splits prod.splits)

lemma anonymize_chars: "set (anonymize s) \<subseteq> set ''/=?&.x''"
  by (auto simp: anonymize_def kept_char_def)

lemma find_upt:
  assumes "a \<le> m" and "m < b" and "P m" and "\<And>k. a \<le> k \<Longrightarrow> k < m \<Longrightarrow> \<not> P k"
  shows "List.find P [a..<b] = Some m"
  unfolding find_Some_iff using assms by (intro exI [of _ "m - a"]) auto

lemma http_version_hd: "http_version v \<Longrightarrow> \<exists>w. v = CHR ''H'' # w"
  by (cases v) (auto simp: http_version_def Let_def)

lemma re_space_lits [simp]: "re_space (CHR '' '')" "\<not> re_space (CHR ''H'')" "\<not> is_upper_letter (CHR '' '')"
  by code_simp+

lemma shortest_url_plain:
  assumes "url \<noteq> []" and "list_all (\<lambda>c. \<not> re_space c) url" and "http_version v"
  shows "shortest_url (url @ CHR '' '' # v) = Some url"
proof -
  obtain w where v: "v = CHR ''H'' # w" using http_version_hd [OF assms(3)] by blast
  let ?s = "url @ CHR '' '' # v"
  have "version_follows (drop (length url) ?s)" using assms(3) by (simp add: version_follows_def v)
  moreover have "list_all (\<lambda>c. (of_char c :: nat) \<noteq> 10) url"
    using assms(2) by (auto simp: re_space_def list_all_iff)
  moreover have "\<not> version_follows (drop n ?s)" if "n < length url" for n
  proof -
    have "hd (drop n ?s) = url ! n" using that by (simp add: hd_drop_conv_nth nth_append)
    with assms(2) that show ?thesis by (simp add: version_follows_def list_all_length)
  qed
  ultimately have "List.find (\<lambda>n. version_follows (drop n ?s) \<and> list_all (\<lambda>c. (of_char c :: nat) \<noteq> 10) (take n ?s))
      [1..<length ?s] = Some (length url)"
    using assms(1) by (intro find_upt) (auto simp: Suc_le_eq v)
  then show ?thesis by (simp add: shortest_url_def)
qed

text \<open>A request whose source does not parse changes nothing; every other is counted once.\<close>

lemma handle_request_counts:
  assumes "treemap (en_slices E)" and "sw_rep (en_slices E) (hi_stats h) D"
    and "handle_request E wl ck r h db = Inr (h', db', res)" and "\<And>st. \<not> isl (en_marshal E st)"
  shows "\<exists>ds. sw_rep (en_slices E) (hi_stats h') (D + ds) \<and>
    image_mset snd ds = (if parse_ip (rq_source r) = [] then {#} else {#request_time (rq_timestamp r)#})"
proof -
  obtain res1 where add: "history_add E wl ck (r\<lparr>rq_time := request_time (rq_timestamp r)\<rparr>) h db = Inr (h', db', res1)"
    using assms(3) by (auto simp: handle_request_def Let_def split: sum.splits)
  show ?thesis
  proof (cases "parse_ip (rq_source r) = []")
    case True
    with add have "h' = h" by (auto simp: history_add_def)
    with True assms(2) show ?thesis by (intro exI [of _ "{#}"]) simp
  next
    case False
    then obtain d where "sw_rep (en_slices E) (hi_stats h') (add_mset (d, request_time (rq_timestamp r)) D)"
      using history_add_counts [OF assms(1,2) add _ assms(4)] by auto
    with False show ?thesis by (intro exI [of _ "{#(d, request_time (rq_timestamp r))#}"]) simp
  qed
qed

section \<open>Properties\<close>


text \<open>
  C32: The first pass spreads the requests over exactly the time that the windows cover: the i-th request it makes
  has the time stamp i time steps after the start of the windows, so all of them are in order, none is older than
  the windows and none is in the future, however many lines are passed over.
\<close>

theorem replay_timestamps:
  assumes "replay_requests req cfg now lines = Inr rs"
    and W: "W = cf_window_size cfg * cf_num_windows cfg" "0 \<le> W" "W < 2 ^ 63" and "W \<le> now" "now < 2 ^ 63"
  shows "map rq_timestamp rs = map (\<lambda>i. now - W + int i * (W div int (length lines))) [0..<length rs] \<and>
    list_all (\<lambda>r. now - W \<le> rq_timestamp r \<and> rq_timestamp r \<le> now) rs"
proof -
  let ?d = "W div int (length lines)"
  have i64W: "i64 W = W" using W by (simp add: i64_nonneg_id)
  have ne: "lines \<noteq> []" using assms(1) by (auto simp: replay_requests_def time_per_line_def)
  then have L: "0 < int (length lines)" by simp
  have d0: "0 \<le> ?d" "?d \<le> W"
    by (rule zdiv_le_self [OF W(2) L])+
  then have "i64 (W sdiv int (length lines)) = ?d"
    using W L by (simp add: sdiv_nonneg i64_nonneg_id)
  moreover have "i64 (- 1 * W) = - W" using W i64_small [of "- W"] by simp
  ultimately have "first_pass req ?d lines (now - W) = Inr rs"
    using assms(1) ne by (simp add: replay_requests_def time_per_line_def W(1) [symmetric] i64W)
  from first_pass_stamps [OF this]
  have len: "length rs \<le> length lines"
    and stamps: "map rq_timestamp rs = map (\<lambda>i. unix_nano (now - W + int i * ?d)) [0..<length rs]" by auto
  have range: "0 \<le> int i * ?d" "int i * ?d \<le> W" if "i < length rs" for i
  proof -
    show "0 \<le> int i * ?d" using d0 by simp
    have "int i * ?d \<le> int (length lines) * ?d" using that len d0 by (intro mult_right_mono) auto
    also have "\<dots> \<le> W" using L by (simp add: minus_mod_eq_mult_div [symmetric])
    finally show "int i * ?d \<le> W" .
  qed
  have "unix_nano (now - W + int i * ?d) = now - W + int i * ?d" if "i < length rs" for i
    using range [OF that] assms(5,6) by (intro unix_nano_id) (auto simp: in64_def)
  then have eq: "map rq_timestamp rs = map (\<lambda>i. now - W + int i * ?d) [0..<length rs]"
    unfolding stamps by (intro map_cong) auto
  have "now - W \<le> rq_timestamp (rs ! i) \<and> rq_timestamp (rs ! i) \<le> now" if "i < length rs" for i
  proof -
    have "rq_timestamp (rs ! i) = map rq_timestamp rs ! i" using that by simp
    also have "\<dots> = now - W + int i * ?d" unfolding eq using that by simp
    finally show ?thesis using range [OF that] by linarith
  qed
  with eq show ?thesis by (simp add: list_all_length)
qed

text \<open>Without anonymizing, no line of any content stops the first pass; only an empty file does, by a division by zero.\<close>

theorem replay_stops_iff:
  "isl (replay_requests (line_request parse ok False) cfg now lines) \<longleftrightarrow> lines = []"
  by (auto simp: replay_requests_def time_per_line_def first_pass_isl line_request_plain)

text \<open>
  C33: The source of a replayed request is always the field \<open>remote_addr\<close> up to its first comma. The field
  \<open>http_x_forwarded_for\<close> never has any influence, since the code takes it only when reading it has failed.
\<close>

theorem replay_source:
  assumes "log_parser parse" and "line_request parse ok anon l = Inr (Some r)"
  shows "\<exists>entry. parse l = Some entry \<and> \<not> snd (entry ''remote_addr'') \<and>
    rq_source r = takeWhile (\<lambda>c. c \<noteq> CHR '','') (fst (entry ''remote_addr''))"
proof -
  obtain entry remote where e: "parse l = Some entry" "entry_remote entry = Some remote" and r: "rq_source r = remote"
    using assms(2) by (auto simp: line_request_def Let_def split: option.splits prod.splits sum.splits if_splits)
  have "snd (entry ''http_x_forwarded_for'') \<longrightarrow> fst (entry ''http_x_forwarded_for'') = []"
    using log_parser.missing_field [OF assms(1) e(1)] by blast
  with e(2) have "\<not> snd (entry ''remote_addr'')" "remote = fst (cut (CHR '','') (fst (entry ''remote_addr'')))"
    by (auto simp: entry_remote_def split: prod.splits if_splits)
  with e(1) r show ?thesis by (auto simp: cut_def)
qed


text \<open>
  The pattern for the request line takes a well-formed request line apart: method, URL and protocol version
  joined by spaces give back the method and the URL, for every method of capital letters and every URL without
  white space.
\<close>

theorem request_line_round_trip:
  assumes "verb \<noteq> []" and "list_all is_upper_letter verb" and "url \<noteq> []" and "list_all (\<lambda>c. \<not> re_space c) url"
    and "http_version v"
  shows "request_line (verb @ '' '' @ url @ '' '' @ v) = Some (verb, url)"
proof -
  let ?rest = "CHR '' '' # url @ CHR '' '' # v"
  have "takeWhile is_upper_letter (verb @ ?rest) = verb" "dropWhile is_upper_letter (verb @ ?rest) = ?rest"
    using assms(2) by (auto simp: list_all_iff takeWhile_tail dropWhile_append3 takeWhile_append dropWhile_append)
  moreover have "takeWhile re_space ?rest = '' ''"
    using assms(3,4) by (cases url) auto
  moreover have "shortest_url (drop 1 ?rest) = Some url"
    using shortest_url_plain [OF assms(3-5)] by simp
  ultimately show ?thesis
    using assms(1) by (simp add: request_line_def Let_def)
qed

section \<open>Witnesses\<close>

text \<open>A line with the address of a proxy and of the client behind it.\<close>

definition wit_line :: string where
  "wit_line = ''remote_addr=10.1.2.3'' @ [char_of (9 :: nat)] @ ''http_x_forwarded_for=10.9.9.9'' @ [char_of (9 :: nat)] @
     ''request=GET /v1.2/users/alice?id=7 HTTP/1.1''"

definition wit_logged :: request where
  "wit_logged = \<lparr>rq_url = ''/v1.2/users/alice?id=7'', rq_host = ''scw.test'', rq_agent = [], rq_source = ''10.1.2.3'',
     rq_method = ''GET'', rq_seq = 0, rq_timestamp = 0, rq_time = zero_time, rq_asn = None, rq_is_app = False\<rparr>"

lemma wit_line_request: "line_request keyed_line (\<lambda>_. True) False wit_line = Inr (Some wit_logged)"
  by code_simp


lemma replay_timestamps_witness:
  "\<exists>rs. replay_requests (line_request keyed_line (\<lambda>_. True) False) wit_cfg 1600000000000000000 [wit_line, wit_line] = Inr rs \<and>
     map rq_timestamp rs = [1599996400000000000, 1599998200000000000]"
proof -
  let ?r = "\<lambda>t. wit_logged\<lparr>rq_timestamp := t\<rparr>"
  obtain t u where run: "replay_requests (line_request keyed_line (\<lambda>_. True) False) wit_cfg 1600000000000000000
      [wit_line, wit_line] = Inr [?r t, ?r u]"
    by (simp add: replay_requests_def time_per_line_def wit_line_request)
  show ?thesis
    using replay_timestamps [OF run refl] run by (auto simp: wit_cfg_def numeral_2_eq_2)
qed

lemma replay_source_witness:
  "\<exists>entry. keyed_line wit_line = Some entry \<and> fst (entry ''http_x_forwarded_for'') = ''10.9.9.9'' \<and>
     takeWhile (\<lambda>c. c \<noteq> CHR '','') (fst (entry ''remote_addr'')) = ''10.1.2.3''"
proof -
  have "map_option (\<lambda>entry. fst (entry ''http_x_forwarded_for'')) (keyed_line wit_line) = Some ''10.9.9.9''" by code_simp
  with replay_source [OF keyed.log_parser_axioms wit_line_request] show ?thesis by (auto simp: wit_logged_def)
qed


lemma request_line_round_trip_witness: "request_line ''GET /index.html HTTP/1.1'' = Some (''GET'', ''/index.html'')"
proof -
  have "list_all is_upper_letter ''GET''" "list_all (\<lambda>c. \<not> re_space c) ''/index.html''" "http_version ''HTTP/1.1''"
    by code_simp+
  from request_line_round_trip [OF _ this(1) _ this(2,3)] show ?thesis by simp
qed

end
