(* ===== verification/EndToEnd.thy ===== *)
theory EndToEnd
  imports Botex WebserverSocket
begin

text \<open>
  From the counts to the answer: the workers of \<^verbatim>\<open>botex.go\<close> and the socket of \<^verbatim>\<open>webserversocket.go\<close>
  share the store only. What the update of the history finds to be blocked, the block worker writes, and
  what it has written the socket reads.
\<close>

section \<open>The steps of an offender\<close>

lemma update_queues:
  assumes "hi_lookup h (ip_string (is_ip st)) = Some a" and "0 < st_total st"
    and "should_be_blocked (en_config E) wl (en_plugins E) now' (set_stats st (hi_details h a)) = Inr (d, resolve, True)"
    and "id_last_block_at d + cf_block_ttl (en_config E) < now" and "id_geoip d = Some city"
  shows "history_update E wl False [(now, now', st)] h = Inr (hi_set_details a (d\<lparr>id_last_block_at := now\<rparr>) h, [], [a])"
  using assms should_be_blocked_True [of "en_config E" wl "en_plugins E" now' "set_stats st (hi_details h a)" d resolve]
  by (simp add: ipd_update_def)

lemma worker_takes:
  assumes "\<not> id_is_blocked (hi_details h a)" and "id_geoip (hi_details h a) = Some city"
  shows "\<exists>h' db'. block_worker E J b (t1, t2, t3) a h db = Inr (h', db', Some (block_message_of t1 city (hi_details h a)))"
  using assms by (auto simp: block_worker_def Let_def)

lemma stored_is_refused:
  assumes "\<And>i. \<not> isl (get_ip K J (now i) db ip)" and "ip \<in> set (candidate_ips W addr xff)"
    and "has_valid_captcha_cookie W now' cookies (candidate_ips W addr xff) = Inr False"
  shows "wss_decide K J W now now' db addr xff cookies = Inr wss_block"
proof -
  obtain i where "i < length (candidate_ips W addr xff)" and "candidate_ips W addr xff ! i = ip"
    using assms(2) by (auto simp: in_set_conv_nth)
  then have "lookups K J now db (candidate_ips W addr xff) = wss_block"
    using assms(1) [of i] by (auto simp: lookups_eq)
  with assms(3) show ?thesis by (simp add: wss_decide_def Let_def wss_block_def wss_ok_def)
qed

section \<open>Property\<close>

text \<open>
  C1: An offender is refused. Take a message of statistics for an address of the history that
  \<open>ShouldBeBlocked\<close> wants blocked, whose last block is older than the time to live, that has GeoIP data and
  is neither marked nor in the store, and let the store work. Then one update and one step of the block
  worker mark the address, and every request that names it is answered \<open>BLOCK\<close>, whatever web server asks and
  in whatever field the address is, until one second before the time to live ends, unless the request
  carries a cookie of a solved captcha.
\<close>

theorem offender_gets_refused:
  assumes "kvstore (en_store E) content" and "block_codec J ip_ok asn_ok network_ok" and "sys_inv s"
    and "bx_updates s = st # sts" and "bx_block_chan s = []"
    and "hi_lookup (bx_history s) (ip_string (is_ip st)) = Some a" and "0 < st_total st"
    and "should_be_blocked (en_config E) (bx_whitelist s) (en_plugins E) now'
           (set_stats st (hi_details (bx_history s) a)) = Inr (d, resolve, True)"
    and "id_last_block_at d + cf_block_ttl (en_config E) < now" and "id_geoip d = Some city"
    and "\<not> id_is_blocked d" and "id_ip d \<noteq> []" and "ip_ok (block_message_of t1 city d)"
    and "content (bx_db s) t2 (ip_namespace (id_ip d)) = None"
    and "\<And>v. \<not> isl (kv_setex (en_store E) (bx_db s) t3 (ip_namespace (id_ip d)) v (bk_ttl (bx_block s)))"
    and "\<And>db t. answers (en_store E) db t (ip_namespace (id_ip d))"
  shows "\<exists>s'. (botex_step E J)\<^sup>*\<^sup>* s s' \<and> bx_updates s' = sts \<and> bx_block_chan s' = [] \<and>
    id_is_blocked (hi_details (bx_history s') a) \<and>
    (\<forall>W t tc addr xff cookies.
       (\<forall>i. t3 \<le> t i \<and> t i + second \<le> t3 + bk_ttl (bx_block s)) \<and> id_ip d \<in> set (candidate_ips W addr xff) \<and>
       has_valid_captcha_cookie W tc cookies (candidate_ips W addr xff) = Inr False \<longrightarrow>
       wss_decide (en_store E) J W t tc (bx_db s') addr xff cookies = Inr wss_block)"
proof -
  have a: "a < length (hi_heap (bx_history s))" using assms(3,6) by (simp add: sys_inv_def hist_inv_lookup)
  let ?d = "d\<lparr>id_last_block_at := now\<rparr>" and ?h = "hi_set_details a (d\<lparr>id_last_block_at := now\<rparr>) (bx_history s)"
  let ?s1 = "s\<lparr>bx_history := ?h, bx_updates := sts, bx_block_chan := [a]\<rparr>"
  have det: "hi_details ?h a = ?d" using a by simp
  have step1: "botex_step E J s ?s1"
    using botex_step.update [OF assms(4) update_queues [OF assms(6-10)]] assms(5) by simp
  have todo: "\<not> id_is_blocked (hi_details ?h a)" "id_geoip (hi_details ?h a) = Some city"
    unfolding det using assms(10,11) by simp_all
  obtain h' db' where work: "block_worker E J (bx_block s) (t1, t2, t3) a ?h (bx_db s) =
      Inr (h', db', Some (block_message_of t1 city ?d))"
    using worker_takes [OF todo, of E J "bx_block s" t1 t2 t3 "bx_db s"] unfolding det by blast
  let ?s2 = "?s1\<lparr>bx_history := h', bx_db := db', bx_block_chan := []\<rparr>"
  have step2: "botex_step E J ?s1 ?s2"
    using botex_step.block_ip [of ?s1 a "[]"] work by simp
  have msg: "ip_ok (block_message_of t1 city ?d)" using assms(13) by (simp add: block_message_of_def)
  note stored = block_worker_stores [OF assms(1,2) work msg, unfolded det, simplified, OF assms(12,15,16,14) _ _ assms(16)]
  have mark: "id_is_blocked (hi_details h' a)" using block_worker_cases [OF work] a by (auto simp: settled_def det)
  have run: "(botex_step E J)\<^sup>*\<^sup>* s ?s2" using step1 step2 by (meson r_into_rtranclp rtranclp.rtrancl_into_rtrancl)
  have "wss_decide (en_store E) J W t tc db' addr xff cookies = Inr wss_block"
    if "\<forall>i. t3 \<le> t i \<and> t i + second \<le> t3 + bk_ttl (bx_block s)" "id_ip d \<in> set (candidate_ips W addr xff)"
      "has_valid_captcha_cookie W tc cookies (candidate_ips W addr xff) = Inr False" for W t tc addr xff cookies
    using stored(1) that by (intro stored_is_refused [of "en_store E" J t db' "id_ip d"]) auto
  with run mark show ?thesis by (intro exI [of _ ?s2]) auto
qed

section \<open>Witness\<close>

definition wit_offence :: "((int, int) RBT.rbt, (time, stat) RBT.rbt, memdb) botex" where
  "wit_offence = (wit_state wit_h1)\<lparr>bx_updates := [wit_stats]\<rparr>"

definition wit_offender :: ip_details where
  "wit_offender = (set_stats wit_stats (wit_details ''bot.example.org'' 301))\<lparr>id_block_reason := TooManyRequests 301 300\<rparr>"

lemma wit_should_be_blocked:
  "should_be_blocked wit_cfg new_whitelist [] 1001 (set_stats wit_stats (wit_details ''bot.example.org'' 301)) =
     Inr (wit_offender, False, True)"
  using wit_not_wl_stats [of wit_stats "''bot.example.org''" 301]
  by (simp add: should_be_blocked_def stale_def block_verdict_def Let_def)
    (simp add: wit_defs i64_def set_stats_def zero_time_def wit_offender_def)

lemma wit_offence_fields:
  "bx_updates wit_offence = [wit_stats]" "bx_block_chan wit_offence = []" "bx_history wit_offence = wit_h1"
  "bx_whitelist wit_offence = new_whitelist" "bx_db wit_offence = RBT.empty" "bx_block wit_offence = wit_block"
  by (simp_all add: wit_offence_def wit_state_def)

lemma wit_env_fields: "en_config wit_env = wit_cfg" "en_plugins wit_env = []"
  by (simp_all add: wit_env_def)

lemma offender_gets_refused_witness:
  "\<exists>s'. (botex_step wit_env num_block_json)\<^sup>*\<^sup>* wit_offence s' \<and>
     wss_decide mem_kv num_block_json wit_wss (\<lambda>_. 6 * second) (\<lambda>_. 6 * second) (bx_db s') (ip_string wit_ip) [] [] =
       Inr wss_block"
proof -
  have inv: "sys_inv wit_offence"
    by (simp add: sys_inv_def wit_offence_fields hist_inv_def wit_h1_def hi_details_def wit_d_fields wit_addr_string)
  have look: "hi_lookup (bx_history wit_offence) (ip_string (is_ip wit_stats)) = Some 0"
    using wit_addr_string by (simp add: wit_offence_fields wit_h1_lookup wit_stats_def)
  have verdict: "should_be_blocked (en_config wit_env) (bx_whitelist wit_offence) (en_plugins wit_env) 1001
      (set_stats wit_stats (hi_details (bx_history wit_offence) 0)) = Inr (wit_offender, False, True)"
    using wit_should_be_blocked by (simp add: wit_offence_fields wit_env_fields wit_h1_details)
  have ttl: "id_last_block_at wit_offender + cf_block_ttl (en_config wit_env) < 1000"
    by (simp add: wit_env_fields wit_offender_def) (simp add: wit_defs zero_time_def)
  have city: "id_geoip wit_offender = Some ''Wien''" and ip: "id_ip wit_offender = wit_ip"
    and new: "\<not> id_is_blocked wit_offender"
    by (simp_all add: wit_offender_def wit_d_fields wit_ip_def)
  have captcha: "has_valid_captcha_cookie wit_wss (\<lambda>_. 6 * second) [] (candidate_ips wit_wss (ip_string wit_ip) []) = Inr False"
    by (simp add: has_valid_captcha_cookie_def captcha_cookie_def trim_space_def wit_wss_def wit_cfg_def)
  note refused = offender_gets_refused [OF mem_kvstore [folded wit_env_store] num_block.block_codec_axioms inv
      wit_offence_fields(1,2) look _ verdict ttl city new _ TrueI, of "5 * second" "5 * second"]
  have "0 < st_total wit_stats" by (simp add: wit_stats_def)
  from refused [OF this] obtain s' where "(botex_step wit_env num_block_json)\<^sup>*\<^sup>* wit_offence s'"
    and "\<forall>W t tc addr xff cookies.
       (\<forall>i. 5 * second \<le> t i \<and> t i + second \<le> 5 * second + bk_ttl (bx_block wit_offence)) \<and>
       id_ip wit_offender \<in> set (candidate_ips W addr xff) \<and>
       has_valid_captcha_cookie W tc cookies (candidate_ips W addr xff) = Inr False \<longrightarrow>
       wss_decide (en_store wit_env) num_block_json W t tc (bx_db s') addr xff cookies = Inr wss_block"
    by (auto simp: ip wit_env_store mem_simps mem_answers wit_offence_fields)
  with captcha show ?thesis
    by (intro exI [of _ s']) (simp add: ip wit_env_store wit_candidates wit_offence_fields wit_block_def second_def)
qed

end
