(* ===== verification/Networks.thy ===== *)
theory Networks
  imports Windows Block
begin

text \<open>
  \<^verbatim>\<open>plugins/network.go\<close>: requests counted per network, and the blocking of networks and autonomous systems
  that send too many app requests. The data of a network is three windows like those of the theory
  \<open>Windows\<close> and a bidirectional map between the times of requests and the addresses that sent them. The
  ordered maps are parameters, as are the clock readings.
\<close>

section \<open>One network\<close>

record ('m, 'b) network_data =
  nd_network :: "ipnet option"
  nd_total :: int
  nd_app :: int
  nd_other :: int
  nd_ratio :: f64
  nd_ip_count :: int
  nd_updated_at :: time
  nd_asn :: "asn option"
  nd_total_map :: 'm
  nd_app_map :: 'm
  nd_other_map :: 'm
  nd_ip_map :: 'b
  nd_window_size :: duration
  nd_num_windows :: int
  nd_deadline :: time

text \<open>\<open>nd_deadline\<close> is the instant at which the timer of the network, started at \<open>now'\<close>, fires.\<close>

definition new_network_data :: "(int, int, 'm) treemap_api \<Rightarrow> (int, string, 'b) bidimap_api \<Rightarrow> time \<Rightarrow> time
    \<Rightarrow> ipnet option \<Rightarrow> config \<Rightarrow> ('m, 'b) network_data" where
  "new_network_data T B now now' ipnet cfg =
     \<lparr>nd_network = ipnet, nd_total = 0, nd_app = 0, nd_other = 0, nd_ratio = Fin 0, nd_ip_count = 0,
      nd_updated_at = now, nd_asn = None, nd_total_map = tm_new T, nd_app_map = tm_new T,
      nd_other_map = tm_new T, nd_ip_map = bm_new B, nd_window_size = cf_window_size cfg,
      nd_num_windows = cf_num_windows cfg, nd_deadline = now' + cf_window_size cfg\<rparr>"

definition nd_key :: "duration \<Rightarrow> time \<Rightarrow> int" where
  "nd_key ws t = i64 (unix_nano t - unix_nano t smod ws)"

definition nd_bump :: "(int, int, 'm) treemap_api \<Rightarrow> int \<Rightarrow> 'm \<Rightarrow> 'm" where
  "nd_bump T key m =
     (let val = (case tm_get T m key of Some v \<Rightarrow> v | None \<Rightarrow> 0) in tm_put T m key (i64 (val + 1)))"

definition nd_update_count :: "(int, int, 'm) treemap_api \<Rightarrow> 'm \<Rightarrow> int" where
  "nd_update_count T m = foldl (\<lambda>total v. i64 (total + v)) 0 (map snd (tm_iter T m))"

definition nd_update_stats :: "(int, int, 'm) treemap_api \<Rightarrow> (int, string, 'b) bidimap_api
    \<Rightarrow> ('m, 'b) network_data \<Rightarrow> ('m, 'b) network_data" where
  "nd_update_stats T B nd =
     (let total = nd_update_count T (nd_total_map nd);
          app = nd_update_count T (nd_app_map nd);
          other = nd_update_count T (nd_other_map nd)
      in nd\<lparr>nd_total := total, nd_app := app, nd_other := other,
            nd_ratio := (if total > 0 then ratio_of app total else nd_ratio nd),
            nd_ip_count := bm_size B (nd_ip_map nd)\<rparr>)"

text \<open>The pattern of \<^verbatim>\<open>matchers/matchers.go\<close> is that of \<^verbatim>\<open>requests.go\<close>.\<close>

definition matchers_assets :: re where
  "matchers_assets = Cat (chr CHR ''.'') (Cat (alts asset_alts) WordB)"

text \<open>
  \<open>HandleRequest\<close>: the statistics are updated before the address is entered. \<open>now\<close> is the reading for
  \<open>UpdatedAt\<close>, \<open>now1\<close> that for the time left, \<open>now2\<close> that at which the timer restarts.
\<close>

definition nd_handle_request :: "(int, int, 'm) treemap_api \<Rightarrow> (int, string, 'b) bidimap_api
    \<Rightarrow> time \<times> time \<times> time \<Rightarrow> request \<Rightarrow> ('m, 'b) network_data \<Rightarrow> ('m, 'b) network_data" where
  "nd_handle_request T B now r nd =
     (let nd1 = (if nd_asn nd = None then nd\<lparr>nd_asn := rq_asn r\<rparr> else nd);
          key = nd_key (nd_window_size nd) (rq_time r);
          nd2 = (if match_string matchers_assets (rq_url r)
                 then nd1\<lparr>nd_other_map := nd_bump T key (nd_other_map nd1)\<rparr>
                 else nd1\<lparr>nd_app_map := nd_bump T key (nd_app_map nd1)\<rparr>);
          nd3 = nd2\<lparr>nd_total_map := nd_bump T key (nd_total_map nd2)\<rparr>;
          nd4 = (nd_update_stats T B nd3)\<lparr>nd_updated_at := fst now\<rparr>;
          ipstr = ip_string (parse_ip (rq_source r));
          ips = (case bm_get_key B (nd_ip_map nd4) ipstr of
                   Some k \<Rightarrow> bm_remove B (nd_ip_map nd4) k | None \<Rightarrow> nd_ip_map nd4);
          left = i64 (time_sub (rq_time r) (fst (snd now)) + i64 (nd_window_size nd * nd_num_windows nd))
      in nd4\<lparr>nd_ip_map := bm_put B ips (unix_nano (rq_time r)) ipstr,
             nd_deadline := snd (snd now) + left\<rparr>)"

text \<open>
  \<open>NumberOfIPs\<close>: the last three bytes of the mask, complemented, as a big endian number. An empty mask gives
  0, one with fewer than three bytes panics.
\<close>

definition nd_number_of_ips :: "('m, 'b) network_data \<Rightarrow> panic + int" where
  "nd_number_of_ips nd =
     (case nd_asn nd of
        None \<Rightarrow> Inl NilDereference
      | Some a \<Rightarrow>
          (case asn_network a of
             None \<Rightarrow> Inl NilDereference
           | Some n \<Rightarrow>
               let m = net_mask n; l = length m
               in if l \<le> 0 then Inr 0
                  else if l < 3 then Inl IndexOutOfRange
                  else Inr (foldl (\<lambda>v b. v * 256 + uint (not b)) 0 (drop (l - 3) m))))"

text \<open>
  \<open>expireStats\<close> and \<open>expireIPs\<close>: what is left, and the number of entries removed, which like the size of
  a map in memory fits into 64 bits.
\<close>

fun nd_expire_loop :: "('m \<Rightarrow> int \<Rightarrow> 'm) \<Rightarrow> int \<Rightarrow> (int \<times> 'v) list \<Rightarrow> 'm \<Rightarrow> int \<Rightarrow> 'm \<times> int" where
  "nd_expire_loop rem threshold [] m n = (m, n)"
| "nd_expire_loop rem threshold ((key, v) # iter) m n =
     (if key \<ge> threshold then (m, n) else nd_expire_loop rem threshold iter (rem m key) (n + 1))"

definition nd_threshold :: "duration \<Rightarrow> int \<Rightarrow> time \<Rightarrow> int" where
  "nd_threshold ws n now = unix_nano (now + i64 (i64 (- 1 * ws) * n))"

definition nd_expire_stats :: "(int, int, 'm) treemap_api \<Rightarrow> time \<Rightarrow> ('m, 'b) network_data \<Rightarrow> 'm \<Rightarrow> 'm \<times> int" where
  "nd_expire_stats T now nd m =
     nd_expire_loop (tm_remove T) (nd_threshold (nd_window_size nd) (nd_num_windows nd) now) (tm_iter T m) m 0"

definition nd_expire_ips :: "(int, string, 'b) bidimap_api \<Rightarrow> time \<Rightarrow> ('m, 'b) network_data \<Rightarrow> ('m, 'b) network_data" where
  "nd_expire_ips B now nd =
     nd\<lparr>nd_ip_map := fst (nd_expire_loop (bm_remove B)
         (nd_threshold (nd_window_size nd) (nd_num_windows nd) now) (bm_iter B (nd_ip_map nd)) (nd_ip_map nd) 0)\<rparr>"

record nd_clock =
  nc_total :: time
  nc_app :: time
  nc_other :: time
  nc_ips :: time

definition nd_expire :: "(int, int, 'm) treemap_api \<Rightarrow> (int, string, 'b) bidimap_api \<Rightarrow> nd_clock
    \<Rightarrow> ('m, 'b) network_data \<Rightarrow> ('m, 'b) network_data" where
  "nd_expire T B ck nd =
     (let (m1, n1) = nd_expire_stats T (nc_total ck) nd (nd_total_map nd);
          (m2, n2) = nd_expire_stats T (nc_app ck) nd (nd_app_map nd);
          (m3, n3) = nd_expire_stats T (nc_other ck) nd (nd_other_map nd);
          nd1 = nd_expire_ips B (nc_ips ck) (nd\<lparr>nd_total_map := m1, nd_app_map := m2, nd_other_map := m3\<rparr>)
      in if n1 + n2 + n3 > 0 then nd_update_stats T B nd1 else nd1)"

section \<open>All networks\<close>

record ('m, 'b) networks =
  nw_data :: "(string \<times> ('m, 'b) network_data) list"
  nw_asn_data :: "int \<rightharpoonup> stats"
  nw_asn_average :: int
  nw_net_data :: "string \<rightharpoonup> stats"
  nw_net_average :: int

definition new_networks :: "('m, 'b) networks" where
  "new_networks = \<lparr>nw_data = [], nw_asn_data = Map.empty, nw_asn_average = 0, nw_net_data = Map.empty,
     nw_net_average = 0\<rparr>"

text \<open>\<open>String\<close> of a network, which may be the nil pointer.\<close>

definition network_string :: "ipnet option \<Rightarrow> string" where
  "network_string n = (case n of None \<Rightarrow> ''<nil>'' | Some n \<Rightarrow> ipnet_string n)"

definition networks_remove :: "ipnet option \<Rightarrow> ('m, 'b) networks \<Rightarrow> ('m, 'b) networks" where
  "networks_remove network n = n\<lparr>nw_data := AList.delete (network_string network) (nw_data n)\<rparr>"

definition networks_handle_request :: "(int, int, 'm) treemap_api \<Rightarrow> (int, string, 'b) bidimap_api \<Rightarrow> config
    \<Rightarrow> time \<times> time \<Rightarrow> time \<times> time \<times> time \<Rightarrow> request \<Rightarrow> ('m, 'b) networks \<Rightarrow> panic + ('m, 'b) networks" where
  "networks_handle_request T B cfg new now r n =
     (case rq_asn r of
        None \<Rightarrow> Inl NilDereference
      | Some a \<Rightarrow>
          let cidr = network_string (asn_network a);
              nd = (case map_of (nw_data n) cidr of
                      Some nd \<Rightarrow> nd
                    | None \<Rightarrow> new_network_data T B (fst new) (snd new) (asn_network a) cfg)
          in Inr (n\<lparr>nw_data := AList.update cidr (nd_handle_request T B now r nd) (nw_data n)\<rparr>))"

definition networks_count :: "('m, 'b) networks \<Rightarrow> int" where
  "networks_count n = int (length (nw_data n))"

definition networks_all :: "('m, 'b) networks \<Rightarrow> ('m, 'b) network_data list" where
  "networks_all n = map snd (nw_data n)"

definition networks_network_stats :: "ipnet \<Rightarrow> ('m, 'b) networks \<Rightarrow> ('m, 'b) network_data option" where
  "networks_network_stats ipn n = map_of (nw_data n) (ipnet_string ipn)"

definition networks_asn_stats :: "int \<Rightarrow> ('m, 'b) networks \<Rightarrow> stats option" where
  "networks_asn_stats asn n = nw_asn_data n asn"

text \<open>\<open>ShouldBeBlocked\<close> of the plugin asks the blocker about the autonomous system of the statistics.\<close>

definition networks_should_be_blocked :: "'db kvstore_api \<Rightarrow> block_json \<Rightarrow> time \<Rightarrow> time \<Rightarrow> 'db \<Rightarrow> ip_stats
    \<Rightarrow> panic + bool \<times> reason" where
  "networks_should_be_blocked K J now now' db st = is_blocked_by_asn K J now now' db (st_asn st)"

section \<open>Updating and blocking\<close>

text \<open>
  The statistics summed up per autonomous system and per network, with the number of entries summed. The
  maps of the code are association lists in the order of their keys' first entry.
\<close>

definition stats_of_asn :: "asn \<Rightarrow> stats" where
  "stats_of_asn a = \<lparr>st_total = 0, st_app = 0, st_other = 0, st_ratio = Fin 0, st_ips = 0, st_asn = Some a\<rparr>"

definition add_group :: "'k \<Rightarrow> asn \<Rightarrow> ('m, 'b) network_data \<Rightarrow> ('k \<times> stats \<times> int) list \<Rightarrow> ('k \<times> stats \<times> int) list" where
  "add_group k a nd groups =
     (let (st, c) = (case map_of groups k of None \<Rightarrow> (stats_of_asn a, 0) | Some e \<Rightarrow> e)
      in AList.update k
           (st\<lparr>st_total := i64 (st_total st + nd_total nd), st_app := i64 (st_app st + nd_app nd),
               st_other := i64 (st_other st + nd_other nd), st_ratio := f64_add (st_ratio st) (nd_ratio nd),
               st_ips := nd_ip_count nd\<rparr>, i64 (c + 1)) groups)"

record ('m, 'b) collected =
  co_data :: "(string \<times> ('m, 'b) network_data) list"
  co_total :: int
  co_asns :: "(int \<times> stats \<times> int) list"
  co_nets :: "(string \<times> stats \<times> int) list"

fun collect :: "(int, int, 'm) treemap_api \<Rightarrow> (int, string, 'b) bidimap_api \<Rightarrow> (string \<Rightarrow> nd_clock)
    \<Rightarrow> (string \<times> ('m, 'b) network_data) list \<Rightarrow> ('m, 'b) collected \<Rightarrow> panic + ('m, 'b) collected" where
  "collect T B ck [] c = Inr c"
| "collect T B ck ((k, nd0) # rest) c =
     (let nd = nd_expire T B (ck k) nd0
      in case nd_asn nd of
           None \<Rightarrow> Inl NilDereference
         | Some a \<Rightarrow>
             collect T B ck rest
               \<lparr>co_data = co_data c @ [(k, nd)], co_total = i64 (co_total c + nd_total nd),
                co_asns = add_group (asn_number a) a nd (co_asns c),
                co_nets = add_group (asn_cidr a) a nd (co_nets c)\<rparr>)"

definition group_ratio :: "stats \<times> int \<Rightarrow> f64" where
  "group_ratio e = f64_div (st_ratio (fst e)) (f64_of_int (snd e))"

definition over_limit :: "config \<Rightarrow> stats \<times> int \<Rightarrow> bool" where
  "over_limit cfg e \<longleftrightarrow> st_total (fst e) > cf_max_app cfg \<and> group_ratio e > cf_max_ratio cfg"

definition asn_message :: "config \<Rightarrow> time \<Rightarrow> stats \<times> int \<Rightarrow> block_message" where
  "asn_message cfg now e =
     \<lparr>st_total = st_total (fst e), st_app = st_app (fst e), st_other = st_other (fst e), st_ratio = group_ratio e,
      st_ips = st_ips (fst e), st_asn = st_asn (fst e),
      bm_reason = AsnTooMany (st_total (fst e)) (cf_max_app cfg) (group_ratio e) (cf_max_ratio cfg),
      bm_city = None, bm_blocked_at = now\<rparr>"

definition network_message :: "config \<Rightarrow> time \<Rightarrow> stats \<times> int \<Rightarrow> network_block_message" where
  "network_message cfg now e =
     \<lparr>st_total = st_total (fst e), st_app = st_app (fst e), st_other = st_other (fst e), st_ratio = group_ratio e,
      st_ips = st_ips (fst e), st_asn = st_asn (fst e),
      bm_reason = NetworkTooMany (st_total (fst e)) (cf_max_app cfg) (group_ratio e) (cf_max_ratio cfg),
      bm_city = None, bm_blocked_at = now,
      nbm_network = (case st_asn (fst e) of None \<Rightarrow> None | Some a \<Rightarrow> asn_network a)\<rparr>"

text \<open>
  \<open>updateAndBlock\<close>: the new state, the messages for \<open>BlockASN\<close> and \<open>BlockNetwork\<close>, and whether \<open>CheckBlocked\<close>
  is called. The statistics kept for the API have the sum of the ratios, not their mean.
\<close>

record ('m, 'b) update_result =
  ur_networks :: "('m, 'b) networks"
  ur_asns :: "block_message list"
  ur_nets :: "network_block_message list"
  ur_check :: bool

definition update_and_block :: "(int, int, 'm) treemap_api \<Rightarrow> (int, string, 'b) bidimap_api \<Rightarrow> config
    \<Rightarrow> (string \<Rightarrow> nd_clock) \<Rightarrow> (int \<Rightarrow> time) \<Rightarrow> (string \<Rightarrow> time) \<Rightarrow> ('m, 'b) networks \<Rightarrow> panic + ('m, 'b) update_result" where
  "update_and_block T B cfg ck now now' n =
     (case collect T B ck (nw_data n) \<lparr>co_data = [], co_total = 0, co_asns = [], co_nets = []\<rparr> of
        Inl p \<Rightarrow> Inl p
      | Inr c \<Rightarrow>
          let asns = map (\<lambda>(k, e). asn_message cfg (now k) e) (filter (\<lambda>(k, e). over_limit cfg e) (co_asns c));
              nets = map (\<lambda>(k, e). network_message cfg (now' k) e) (filter (\<lambda>(k, e). over_limit cfg e) (co_nets c));
              average = (\<lambda>l. if l > 0 then co_total c sdiv l else 0)
          in Inr \<lparr>ur_networks = \<lparr>nw_data = co_data c, nw_asn_data = map_of (map (\<lambda>(k, e). (k, fst e)) (co_asns c)),
                     nw_asn_average = average (int (length (co_asns c))),
                     nw_net_data = map_of (map (\<lambda>(k, e). (k, fst e)) (co_nets c)),
                     nw_net_average = average (int (length (co_nets c)))\<rparr>,
                  ur_asns = asns, ur_nets = nets, ur_check = (asns \<noteq> [] \<or> nets \<noteq> [])\<rparr>)"

text \<open>The calls of the blocker, in order, on the block list of the theory \<open>Block\<close>; their errors are dropped.\<close>

fun block_asns :: "'db kvstore_api \<Rightarrow> block_json \<Rightarrow> (nat \<Rightarrow> block_clock) \<Rightarrow> nat \<Rightarrow> block_message list \<Rightarrow> block \<Rightarrow> 'db
    \<Rightarrow> panic + block \<times> 'db" where
  "block_asns K J ck i [] b db = Inr (b, db)"
| "block_asns K J ck i (m # ms) b db =
     (case block_asn K J (ck i) m b db of
        Inl p \<Rightarrow> Inl p
      | Inr (err, b', db') \<Rightarrow> block_asns K J ck (Suc i) ms b' db')"

fun block_networks :: "'db kvstore_api \<Rightarrow> block_json \<Rightarrow> (nat \<Rightarrow> block_clock) \<Rightarrow> nat \<Rightarrow> network_block_message list
    \<Rightarrow> block \<Rightarrow> 'db \<Rightarrow> panic + block \<times> 'db" where
  "block_networks K J ck i [] b db = Inr (b, db)"
| "block_networks K J ck i (m # ms) b db =
     (case block_network K J (ck i) m b db of
        Inl p \<Rightarrow> Inl p
      | Inr (err, b', db') \<Rightarrow> block_networks K J ck (Suc i) ms b' db')"

section \<open>The goroutine of NewNetworks\<close>

text \<open>
  The steps of the state: a request, a message on \<open>removeChan\<close>, of whatever network, and the ticker. The calls of
  the blocker do not change the state of the plugin.
\<close>

inductive networks_step :: "(int, int, 'm) treemap_api \<Rightarrow> (int, string, 'b) bidimap_api \<Rightarrow> config
    \<Rightarrow> ('m, 'b) networks \<Rightarrow> ('m, 'b) networks \<Rightarrow> bool"
  for T :: "(int, int, 'm) treemap_api" and B :: "(int, string, 'b) bidimap_api" and cfg :: config where
  request: "networks_handle_request T B cfg new now r n = Inr n' \<Longrightarrow> networks_step T B cfg n n'"
| remove: "networks_step T B cfg n (networks_remove network n)"
| tick: "update_and_block T B cfg ck now now' n = Inr u \<Longrightarrow> networks_step T B cfg n (ur_networks u)"

inductive_cases networks_stepE: "networks_step T B cfg n n'"

section \<open>Averages\<close>

record network_stats = stats +
  ns_size :: int
  ns_ratio :: f64

fun sum_networks :: "('m, 'b) network_data list \<Rightarrow> network_stats \<Rightarrow> int \<Rightarrow> f64 \<Rightarrow> panic + network_stats \<times> int \<times> f64" where
  "sum_networks [] res c nc = Inr (res, c, nc)"
| "sum_networks (nd # nds) res c nc =
     (case nd_number_of_ips nd of
        Inl p \<Rightarrow> Inl p
      | Inr ips \<Rightarrow>
          let res1 = res\<lparr>st_total := i64 (st_total res + nd_total nd), st_app := i64 (st_app res + nd_app nd),
                 st_other := i64 (st_other res + nd_other nd), ns_size := (ns_size res + ips) mod 2 ^ 64\<rparr>
          in if ips > 0
             then sum_networks nds
                    (res1\<lparr>ns_ratio := f64_add (ns_ratio res1) (ratio_of (nd_total nd) ips)\<rparr>)
                    (i64 (c + 1)) (f64_add nc (Fin 1))
             else sum_networks nds res1 (i64 (c + 1)) nc)"

definition networks_averages :: "('m, 'b) networks \<Rightarrow> panic + network_stats" where
  "networks_averages n =
     (let res0 = stats.extend \<lparr>st_total = 0, st_app = 0, st_other = 0, st_ratio = Fin 0, st_ips = 0, st_asn = None\<rparr>
                   \<lparr>ns_size = 0, ns_ratio = Fin 0\<rparr>
      in case sum_networks (map snd (nw_data n)) res0 0 (Fin 0) of
           Inl p \<Rightarrow> Inl p
         | Inr (res, c, nc) \<Rightarrow>
             if c > 0 then
               let total = st_total res sdiv c; app = st_app res sdiv c
               in Inr (res\<lparr>st_total := total, st_app := app, st_other := st_other res sdiv c,
                           st_ratio := ratio_of app total, ns_size := ns_size res div c,
                           ns_ratio := f64_div (ns_ratio res) nc\<rparr>)
             else Inr res)"

section \<open>The windows of a network\<close>

definition nd_window :: "('m, 'b) network_data \<Rightarrow> 'm \<Rightarrow> 'm window" where
  "nd_window nd m = \<lparr>w_data = m, w_size = nd_window_size nd, w_num = nd_num_windows nd\<rparr>"

lemma nd_window_sel [simp]:
  "w_data (nd_window nd m) = m" "w_size (nd_window nd m) = nd_window_size nd" "w_num (nd_window nd m) = nd_num_windows nd"
  by (simp_all add: nd_window_def)

lemma matchers_assets_eq: "match_string matchers_assets url = asset_match url"
  by (simp add: matchers_assets_def asset_match_def asset_re_def)

lemma nd_bump_window: "nd_window nd (nd_bump T (nd_key (nd_window_size nd) t) m) = window_add T t (nd_window nd m)"
  by (simp add: nd_bump_def nd_key_def window_add_def window_key_def nd_window_def Let_def)

lemma nd_update_count_window: "nd_update_count T m = window_count T (nd_window nd m)"
  by (simp add: nd_update_count_def window_count_def)

lemma nd_expire_loop_fst: "fst (nd_expire_loop (tm_remove T) th it m n) = expire_loop T th it m"
  by (induction it arbitrary: m n) auto

lemma nd_expire_loop_ge: "n \<le> snd (nd_expire_loop rm th it m n)"
proof (induction it arbitrary: m n)
  case Nil
  then show ?case by simp
next
  case (Cons e it)
  obtain k v where e: "e = (k, v)" by force
  from Cons [of "n + 1" "rm m k"] show ?case by (simp add: e)
qed

lemma nd_expire_loop_none: "snd (nd_expire_loop rm th it m n) = n \<Longrightarrow> fst (nd_expire_loop rm th it m n) = m"
proof (cases it)
  case Nil
  then show ?thesis by simp
next
  case (Cons e it')
  obtain k v where e: "e = (k, v)" by force
  assume none: "snd (nd_expire_loop rm th it m n) = n"
  have "n + 1 \<le> snd (nd_expire_loop rm th it' (rm m k) (n + 1))" by (rule nd_expire_loop_ge)
  with none Cons e show ?thesis by (auto split: if_splits)
qed

lemma nd_expire_stats_window:
  "nd_window nd (fst (nd_expire_stats T now nd m)) = fst (window_expire T now (nd_window nd m))"
  by (simp add: nd_expire_stats_def nd_expire_loop_fst window_expire_def Let_def nd_threshold_def window_threshold_def
      nd_window_def)

text \<open>What the fields of a network count: the totals are those of the maps, and each map represents its instants.\<close>

definition nd_rep :: "(int, int, 'm) treemap_api \<Rightarrow> duration \<Rightarrow> int \<Rightarrow> ('m, 'b) network_data
    \<Rightarrow> time multiset \<Rightarrow> time multiset \<Rightarrow> time multiset \<Rightarrow> bool" where
  "nd_rep T ws n nd M A Oth \<longleftrightarrow>
     nd_window_size nd = ws \<and> nd_num_windows nd = n \<and>
     win_rep T \<lparr>w_data = nd_total_map nd, w_size = ws, w_num = n\<rparr> M \<and> win_rep T \<lparr>w_data = nd_app_map nd, w_size = ws, w_num = n\<rparr> A \<and>
     win_rep T \<lparr>w_data = nd_other_map nd, w_size = ws, w_num = n\<rparr> Oth \<and>
     nd_total nd = nd_update_count T (nd_total_map nd) \<and> nd_app nd = nd_update_count T (nd_app_map nd) \<and>
     nd_other nd = nd_update_count T (nd_other_map nd)"

context window_store
begin

lemma nd_rep_new: "nd_rep T (cf_window_size cfg) (cf_num_windows cfg) (new_network_data T B now now' ipnet cfg) {#} {#} {#}"
proof -
  have "tm_iter T (tm_new T) = []"
    using iter_get [of "tm_new T"] by (cases "tm_iter T (tm_new T)") (auto dest: fun_cong split: if_splits)
  with new_window_rep show ?thesis
    by (simp add: nd_rep_def new_network_data_def new_window_def nd_update_count_def)
qed

lemma nd_rep_counts:
  assumes "nd_rep T ws n nd M A Oth"
  shows "nd_total nd = i64 (int (size M)) \<and> nd_app nd = i64 (int (size A)) \<and> nd_other nd = i64 (int (size Oth))"
proof -
  have "win_rep T \<lparr>w_data = m, w_size = ws, w_num = n\<rparr> X \<Longrightarrow> nd_update_count T m = i64 (int (size X))" for m X
    using window_count_rep [of "\<lparr>w_data = m, w_size = ws, w_num = n\<rparr>" X]
    by (simp add: nd_update_count_def window_count_def)
  with assms show ?thesis unfolding nd_rep_def by metis
qed

lemma nd_rep_handle:
  assumes "nd_rep T ws n nd M A Oth"
  shows "nd_rep T ws n (nd_handle_request T B now r nd) (add_mset (rq_time r) M)
     (if asset_match (rq_url r) then A else add_mset (rq_time r) A)
     (if asset_match (rq_url r) then add_mset (rq_time r) Oth else Oth)"
proof -
  have wsn: "nd_window_size nd = ws" "nd_num_windows nd = n" using assms by (simp_all add: nd_rep_def)
  have rep: "win_rep T \<lparr>w_data = m, w_size = ws, w_num = n\<rparr> X \<Longrightarrow>
      win_rep T \<lparr>w_data = nd_bump T (nd_key ws (rq_time r)) m, w_size = ws, w_num = n\<rparr> (add_mset (rq_time r) X)" for m X
    using window_add_rep [of "nd_window nd m" X "rq_time r"] nd_bump_window [of nd T "rq_time r" m] wsn
    by (simp add: nd_window_def)
  show ?thesis
    using assms rep unfolding nd_rep_def nd_handle_request_def Let_def matchers_assets_eq nd_update_stats_def
    by simp
qed

lemma nd_rep_expire:
  assumes "nd_rep T ws n nd M A Oth"
  shows "nd_rep T ws n (nd_expire T B ck nd) (live_from ws (window_threshold ws n (nc_total ck)) M)
     (live_from ws (window_threshold ws n (nc_app ck)) A) (live_from ws (window_threshold ws n (nc_other ck)) Oth)"
proof -
  define e where "e = (\<lambda>now m. nd_expire_stats T now nd m)"
  have wsn: "nd_window_size nd = ws" "nd_num_windows nd = n" using assms by (simp_all add: nd_rep_def)
  have rep: "win_rep T \<lparr>w_data = m, w_size = ws, w_num = n\<rparr> X \<Longrightarrow>
      win_rep T \<lparr>w_data = fst (e now m), w_size = ws, w_num = n\<rparr> (live_from ws (window_threshold ws n now) X)" for m X now
    using window_expire_rep [of "nd_window nd m" X now] nd_expire_stats_window [of nd T now m] wsn
    by (simp add: e_def nd_window_def)
  have ge: "0 \<le> snd (e now m)" for now m
    unfolding e_def nd_expire_stats_def by (rule nd_expire_loop_ge)
  have none: "snd (e now m) = 0 \<Longrightarrow> fst (e now m) = m" for now m
    unfolding e_def nd_expire_stats_def by (rule nd_expire_loop_none)
  let ?a = "e (nc_total ck) (nd_total_map nd)" and ?b = "e (nc_app ck) (nd_app_map nd)"
    and ?c = "e (nc_other ck) (nd_other_map nd)"
  have unchanged: "fst ?a = nd_total_map nd \<and> fst ?b = nd_app_map nd \<and> fst ?c = nd_other_map nd"
    if "\<not> snd ?a + snd ?b + snd ?c > 0"
    using that ge [of "nc_total ck" "nd_total_map nd"] ge [of "nc_app ck" "nd_app_map nd"]
      ge [of "nc_other ck" "nd_other_map nd"] none by force
  have "nd_expire T B ck nd =
      (let nd1 = nd_expire_ips B (nc_ips ck) (nd\<lparr>nd_total_map := fst ?a, nd_app_map := fst ?b, nd_other_map := fst ?c\<rparr>)
       in if snd ?a + snd ?b + snd ?c > 0 then nd_update_stats T B nd1 else nd1)"
    by (simp add: nd_expire_def e_def case_prod_beta)
  moreover note reps = rep [of "nd_total_map nd" M "nc_total ck"] rep [of "nd_app_map nd" A "nc_app ck"]
    rep [of "nd_other_map nd" Oth "nc_other ck"]
  ultimately show ?thesis
  proof (cases "snd ?a + snd ?b + snd ?c > 0")
    case True
    with \<open>nd_expire T B ck nd = _\<close> reps assms show ?thesis
      by (simp add: nd_rep_def Let_def nd_update_stats_def nd_expire_ips_def)
  next
    case False
    with \<open>nd_expire T B ck nd = _\<close> unchanged [OF False] reps assms show ?thesis
      by (simp add: nd_rep_def Let_def nd_expire_ips_def)
  qed
qed

end

text \<open>Runs of a network, and the events of its three windows.\<close>

datatype nd_event = NdRequest "time \<times> time \<times> time" request | NdExpire nd_clock

fun nd_run :: "(int, int, 'm) treemap_api \<Rightarrow> (int, string, 'b) bidimap_api \<Rightarrow> nd_event list
    \<Rightarrow> ('m, 'b) network_data \<Rightarrow> ('m, 'b) network_data" where
  "nd_run T B [] nd = nd"
| "nd_run T B (NdRequest now r # es) nd = nd_run T B es (nd_handle_request T B now r nd)"
| "nd_run T B (NdExpire ck # es) nd = nd_run T B es (nd_expire T B ck nd)"

fun total_events :: "nd_event list \<Rightarrow> win_event list" where
  "total_events [] = []"
| "total_events (NdRequest now r # es) = Added (rq_time r) # total_events es"
| "total_events (NdExpire ck # es) = Expired (nc_total ck) # total_events es"

fun app_events :: "nd_event list \<Rightarrow> win_event list" where
  "app_events [] = []"
| "app_events (NdRequest now r # es) = (if asset_match (rq_url r) then id else (#) (Added (rq_time r))) (app_events es)"
| "app_events (NdExpire ck # es) = Expired (nc_app ck) # app_events es"

fun other_events :: "nd_event list \<Rightarrow> win_event list" where
  "other_events [] = []"
| "other_events (NdRequest now r # es) = (if asset_match (rq_url r) then (#) (Added (rq_time r)) else id) (other_events es)"
| "other_events (NdExpire ck # es) = Expired (nc_other ck) # other_events es"

context window_store
begin

lemma nd_run_rep:
  "nd_rep T ws n nd M A Oth \<Longrightarrow>
     nd_rep T ws n (nd_run T B es nd) (live_run ws n (total_events es) M) (live_run ws n (app_events es) A)
       (live_run ws n (other_events es) Oth)"
proof (induction es arbitrary: nd M A Oth)
  case Nil
  then show ?case by simp
next
  case (Cons e es)
  show ?case
  proof (cases e)
    case (NdRequest now r)
    from Cons.IH [OF nd_rep_handle [OF Cons.prems, of B now r]] show ?thesis
      by (cases "asset_match (rq_url r)") (simp_all add: NdRequest)
  next
    case (NdExpire ck)
    from Cons.IH [OF nd_rep_expire [OF Cons.prems, of B ck]] show ?thesis by (simp add: NdExpire)
  qed
qed

end

lemma nd_ip_map_handle:
  "nd_ip_map (nd_handle_request T B now r nd) =
     bm_put B (case bm_get_key B (nd_ip_map nd) (ip_string (parse_ip (rq_source r))) of
                 Some k \<Rightarrow> bm_remove B (nd_ip_map nd) k | None \<Rightarrow> nd_ip_map nd)
       (unix_nano (rq_time r)) (ip_string (parse_ip (rq_source r)))"
  by (simp add: nd_handle_request_def Let_def nd_update_stats_def cong: option.case_cong)

section \<open>Summing up\<close>

definition group_sum :: "('m, 'b) network_data list \<Rightarrow> stats \<times> int" where
  "group_sum nds =
     foldl (\<lambda>(st, c) nd. (st\<lparr>st_total := i64 (st_total st + nd_total nd), st_app := i64 (st_app st + nd_app nd),
               st_other := i64 (st_other st + nd_other nd), st_ratio := f64_add (st_ratio st) (nd_ratio nd),
               st_ips := nd_ip_count nd\<rparr>, i64 (c + 1)))
       (stats_of_asn (the (nd_asn (hd nds))), 0) nds"

lemma group_sum_snoc:
  "group_sum (nds @ [nd]) =
     (let (st, c) = (if nds = [] then (stats_of_asn (the (nd_asn nd)), 0) else group_sum nds)
      in (st\<lparr>st_total := i64 (st_total st + nd_total nd), st_app := i64 (st_app st + nd_app nd),
               st_other := i64 (st_other st + nd_other nd), st_ratio := f64_add (st_ratio st) (nd_ratio nd),
               st_ips := nd_ip_count nd\<rparr>, i64 (c + 1)))"
  by (auto simp: group_sum_def case_prod_beta)

lemma group_sum_fields:
  "nds \<noteq> [] \<Longrightarrow> st_total (fst (group_sum nds)) = i64 (sum_list (map nd_total nds)) \<and>
     st_ratio (fst (group_sum nds)) = foldl f64_add (Fin 0) (map nd_ratio nds) \<and>
     st_asn (fst (group_sum nds)) = Some (the (nd_asn (hd nds))) \<and>
     snd (group_sum nds) = i64 (int (length nds))"
proof (induction nds rule: rev_induct)
  case Nil
  then show ?case by simp
next
  case (snoc nd nds)
  then show ?case
    using group_sum_snoc [of "[]" nd]
    by (cases "nds = []") (auto simp: group_sum_snoc case_prod_beta stats_of_asn_def add.commute)
qed

definition sums_ok :: "(asn \<Rightarrow> 'k) \<Rightarrow> ('k \<times> stats \<times> int) list \<Rightarrow> ('m, 'b) network_data list \<Rightarrow> bool" where
  "sums_ok key groups nds \<longleftrightarrow> distinct (map fst groups) \<and>
     (\<forall>k. map_of groups k = (let g = filter (\<lambda>nd. map_option key (nd_asn nd) = Some k) nds
                             in if g = [] then None else Some (group_sum g)))"

lemma sums_ok_Nil: "sums_ok key [] []"
  by (simp add: sums_ok_def)

lemma sums_ok_add:
  assumes "sums_ok key groups nds" and a: "nd_asn nd = Some a"
  shows "sums_ok key (add_group (key a) a nd groups) (nds @ [nd])"
proof -
  let ?g = "\<lambda>k. filter (\<lambda>nd. map_option key (nd_asn nd) = Some k) nds"
  have get: "map_of groups k = (if ?g k = [] then None else Some (group_sum (?g k)))" for k
    using assms(1) by (simp add: sums_ok_def Let_def)
  have "map_of (add_group (key a) a nd groups) k =
      (if k = key a then Some (group_sum (?g k @ [nd])) else map_of groups k)" for k
    by (simp add: add_group_def group_sum_snoc a get update_conv' case_prod_beta Let_def)
  moreover have "distinct (map fst (add_group (key a) a nd groups))"
    using assms(1) by (simp add: add_group_def sums_ok_def case_prod_beta distinct_update Let_def)
  ultimately show ?thesis by (simp add: sums_ok_def get a)
qed

lemma collect_ok:
  assumes "collect T B ck data c = Inr c'" and "sums_ok asn_number (co_asns c) (map snd (co_data c))"
    and "sums_ok asn_cidr (co_nets c) (map snd (co_data c))"
  shows "sums_ok asn_number (co_asns c') (map snd (co_data c')) \<and>
    sums_ok asn_cidr (co_nets c') (map snd (co_data c')) \<and>
    co_data c' = co_data c @ map (\<lambda>(k, nd). (k, nd_expire T B (ck k) nd)) data"
  using assms
proof (induction data arbitrary: c)
  case Nil
  then show ?case by simp
next
  case (Cons e data)
  obtain k nd0 where e: "e = (k, nd0)" by force
  define nd where "nd = nd_expire T B (ck k) nd0"
  from Cons.prems(1) obtain a where a: "nd_asn nd = Some a"
    by (auto simp: e nd_def Let_def split: option.splits)
  let ?c = "\<lparr>co_data = co_data c @ [(k, nd)], co_total = i64 (co_total c + nd_total nd),
      co_asns = add_group (asn_number a) a nd (co_asns c), co_nets = add_group (asn_cidr a) a nd (co_nets c)\<rparr>"
  have run: "collect T B ck data ?c = Inr c'"
    using Cons.prems(1) a by (simp add: e nd_def Let_def)
  have "sums_ok asn_number (co_asns ?c) (map snd (co_data ?c))" "sums_ok asn_cidr (co_nets ?c) (map snd (co_data ?c))"
    using sums_ok_add [OF Cons.prems(2) a] sums_ok_add [OF Cons.prems(3) a] by simp_all
  from Cons.IH [OF run this] show ?case
    by (elim conjE) (intro conjI; (assumption | simp add: e nd_def))
qed

text \<open>Every entry is filed under its network's text, and has an autonomous system of that network.\<close>

definition networks_inv :: "('m, 'b) networks \<Rightarrow> bool" where
  "networks_inv n \<longleftrightarrow> distinct (map fst (nw_data n)) \<and>
     (\<forall>(k, nd) \<in> set (nw_data n). network_string (nd_network nd) = k \<and>
        (\<exists>a. nd_asn nd = Some a \<and> network_string (asn_network a) = k))"

lemma nd_fields_handle:
  "nd_network (nd_handle_request T B now r nd) = nd_network nd"
  "nd_asn (nd_handle_request T B now r nd) = (if nd_asn nd = None then rq_asn r else nd_asn nd)"
  by (simp_all add: nd_handle_request_def Let_def nd_update_stats_def)

lemma nd_fields_expire [simp]:
  "nd_network (nd_expire T B ck nd) = nd_network nd" "nd_asn (nd_expire T B ck nd) = nd_asn nd"
  by (simp_all add: nd_expire_def Let_def nd_update_stats_def nd_expire_ips_def case_prod_beta)

lemma networks_inv_request:
  assumes "networks_inv n" and "networks_handle_request T B cfg new now r n = Inr n'"
  shows "networks_inv n'"
proof -
  from assms(2) obtain a where a: "rq_asn r = Some a"
    by (auto simp: networks_handle_request_def split: option.splits)
  define k where "k = network_string (asn_network a)"
  define nd where "nd = (case map_of (nw_data n) k of
      Some nd \<Rightarrow> nd | None \<Rightarrow> new_network_data T B (fst new) (snd new) (asn_network a) cfg)"
  have n': "nw_data n' = AList.update k (nd_handle_request T B now r nd) (nw_data n)"
    using assms(2) by (auto simp: networks_handle_request_def a k_def nd_def Let_def)
  have "network_string (nd_network nd) = k \<and> (\<forall>b. nd_asn nd = Some b \<longrightarrow> network_string (asn_network b) = k)"
  proof (cases "map_of (nw_data n) k")
    case None
    then show ?thesis by (simp add: nd_def new_network_data_def k_def)
  next
    case (Some nd')
    from map_of_SomeD [OF this] assms(1) Some show ?thesis by (fastforce simp: nd_def networks_inv_def)
  qed
  then have "network_string (nd_network (nd_handle_request T B now r nd)) = k \<and>
      (\<exists>b. nd_asn (nd_handle_request T B now r nd) = Some b \<and> network_string (asn_network b) = k)"
    by (cases "nd_asn nd") (auto simp: nd_fields_handle a k_def)
  moreover have "(k', nd') \<in> set (AList.update k v al) \<Longrightarrow> (k', nd') = (k, v) \<or> (k', nd') \<in> set al" for k' nd' v and al :: "(string \<times> ('a, 'b) network_data) list"
    by (induction al) (auto split: if_splits)
  ultimately show ?thesis
    using assms(1) by (fastforce simp: networks_inv_def n' distinct_update)
qed

lemma networks_inv_remove: "networks_inv n \<Longrightarrow> networks_inv (networks_remove network n)"
  unfolding networks_inv_def networks_remove_def
  by (auto simp: AList.delete_eq distinct_map_filter)

lemma networks_inv_tick:
  assumes "networks_inv n" and "update_and_block T B cfg ck now now' n = Inr u"
  shows "networks_inv (ur_networks u)"
proof -
  from assms(2) obtain c where c: "collect T B ck (nw_data n) \<lparr>co_data = [], co_total = 0, co_asns = [], co_nets = []\<rparr> = Inr c"
    and u: "nw_data (ur_networks u) = co_data c"
    unfolding update_and_block_def Let_def by (auto split: sum.splits)
  have "co_data c = map (\<lambda>(k, nd). (k, nd_expire T B (ck k) nd)) (nw_data n)"
    using conjunct2 [OF conjunct2 [OF collect_ok [OF c]]] by (simp add: sums_ok_Nil)
  with assms(1) u show ?thesis
    unfolding networks_inv_def by (fastforce simp: comp_def case_prod_beta)
qed

lemma networks_inv_reachable:
  assumes "(networks_step T B cfg)\<^sup>*\<^sup>* new_networks n"
  shows "networks_inv n"
  using assms
proof (induction rule: rtranclp_induct)
  case base
  show ?case by (simp add: networks_inv_def new_networks_def)
next
  case (step n n')
  from step(2,3) show ?case
    by (auto elim!: networks_stepE simp: networks_inv_remove intro: networks_inv_request networks_inv_tick)
qed

lemma collect_Inr: "\<forall>(k, nd) \<in> set data. nd_asn nd \<noteq> None \<Longrightarrow> \<exists>c'. collect T B ck data c = Inr c'"
proof (induction data arbitrary: c)
  case Nil
  then show ?case by simp
next
  case (Cons e data)
  obtain k nd where e: "e = (k, nd)" by force
  with Cons.prems obtain a where "nd_asn nd = Some a" by auto
  with Cons show ?case by (simp add: e Let_def)
qed

lemma over_limit_group:
  "g \<noteq> [] \<Longrightarrow> over_limit cfg (group_sum g) \<longleftrightarrow> i64 (sum_list (map nd_total g)) > cf_max_app cfg \<and>
     f64_div (foldl f64_add (Fin 0) (map nd_ratio g)) (f64_of_int (i64 (int (length g)))) > cf_max_ratio cfg"
  using group_sum_fields [of g] by (simp add: over_limit_def group_ratio_def)

section \<open>Properties\<close>

text \<open>
  C11: The counts of a network are those of its requests: after any run of requests and expirations, the total,
  the app requests and the other requests are the numbers of the instants of such requests that are live, as
  64-bit integers, each window at its own clock readings.
\<close>

theorem network_counts:
  assumes "window_store T"
  shows "nd_total (nd_run T B es (new_network_data T B now now' ipnet cfg)) =
      i64 (int (size (live_run (cf_window_size cfg) (cf_num_windows cfg) (total_events es) {#}))) \<and>
    nd_app (nd_run T B es (new_network_data T B now now' ipnet cfg)) =
      i64 (int (size (live_run (cf_window_size cfg) (cf_num_windows cfg) (app_events es) {#}))) \<and>
    nd_other (nd_run T B es (new_network_data T B now now' ipnet cfg)) =
      i64 (int (size (live_run (cf_window_size cfg) (cf_num_windows cfg) (other_events es) {#})))"
  by (rule window_store.nd_rep_counts [OF assms window_store.nd_run_rep [OF assms window_store.nd_rep_new [OF assms]]])

text \<open>
  C12: Which autonomous systems an update blocks: those whose networks together made more requests than the limit
  for app requests, with a mean ratio above the maximum; and the waiting addresses are checked again exactly when
  something was blocked.
\<close>

theorem update_blocks_iff:
  assumes "update_and_block T B cfg ck now now' n = Inr u"
  shows "((\<exists>m \<in> set (ur_asns u). map_option asn_number (st_asn m) = Some k) \<longleftrightarrow>
      (let g = filter (\<lambda>nd. map_option asn_number (nd_asn nd) = Some k) (map snd (nw_data (ur_networks u)))
       in g \<noteq> [] \<and> i64 (sum_list (map nd_total g)) > cf_max_app cfg \<and>
          f64_div (foldl f64_add (Fin 0) (map nd_ratio g)) (f64_of_int (i64 (int (length g)))) > cf_max_ratio cfg)) \<and>
    (ur_check u \<longleftrightarrow> ur_asns u \<noteq> [] \<or> ur_nets u \<noteq> [])"
proof -
  from assms obtain c where c: "collect T B ck (nw_data n) \<lparr>co_data = [], co_total = 0, co_asns = [], co_nets = []\<rparr> = Inr c"
    and u: "ur_asns u = map (\<lambda>(k, e). asn_message cfg (now k) e) (filter (\<lambda>(k, e). over_limit cfg e) (co_asns c))"
      "nw_data (ur_networks u) = co_data c" "ur_check u = (ur_asns u \<noteq> [] \<or> ur_nets u \<noteq> [])"
    unfolding update_and_block_def Let_def by (auto split: sum.splits)
  let ?g = "\<lambda>k. filter (\<lambda>nd. map_option asn_number (nd_asn nd) = Some k) (map snd (co_data c))"
  have ok: "sums_ok asn_number (co_asns c) (map snd (co_data c))"
    by (rule conjunct1 [OF collect_ok [OF c]]) (simp_all add: sums_ok_Nil)
  have entry: "(k', e) \<in> set (co_asns c) \<longleftrightarrow> ?g k' \<noteq> [] \<and> e = group_sum (?g k')" for k' e
  proof -
    have "map_of (co_asns c) k' = (if ?g k' = [] then None else Some (group_sum (?g k')))"
      and d: "distinct (map fst (co_asns c))"
      using ok unfolding sums_ok_def Let_def by blast+
    with map_of_eq_Some_iff [OF d, of k' e] show ?thesis by (auto split: if_splits)
  qed
  have asn: "map_option asn_number (st_asn (fst (group_sum (?g k')))) = Some k'" if "?g k' \<noteq> []" for k'
  proof -
    from hd_in_set [OF that] have "map_option asn_number (nd_asn (hd (?g k'))) = Some k'" by auto
    then show ?thesis using group_sum_fields [OF that] by auto
  qed
  have "(\<exists>m \<in> set (ur_asns u). map_option asn_number (st_asn m) = Some k) \<longleftrightarrow>
      (\<exists>k' e. (k', e) \<in> set (co_asns c) \<and> over_limit cfg e \<and> map_option asn_number (st_asn (fst e)) = Some k)"
    unfolding u(1) by (force simp: asn_message_def)
  also have "\<dots> \<longleftrightarrow> ?g k \<noteq> [] \<and> over_limit cfg (group_sum (?g k))"
    unfolding entry using asn by fastforce
  finally show ?thesis unfolding u(2) Let_def using over_limit_group u(3) by blast
qed

text \<open>
  C14: The map of the plugin keeps its shape in every state it reaches: every network stands under its own notation
  and under no other, its data has the autonomous system of the requests it was made from, and that system's
  network is the network itself.
\<close>

theorem networks_well_formed:
  assumes "(networks_step T B cfg)\<^sup>*\<^sup>* new_networks n"
  shows "distinct (map fst (nw_data n)) \<and>
    list_all (\<lambda>(k, nd). network_string (nd_network nd) = k \<and>
      (case nd_asn nd of None \<Rightarrow> False | Some a \<Rightarrow> network_string (asn_network a) = k)) (nw_data n)"
  using networks_inv_reachable [OF assms] by (fastforce simp: networks_inv_def list_all_iff)


text \<open>
  Addresses are counted by the time of their last request: when a second address sends a request with the time
  of another's, the first is no longer an address of the network. With time stamps in seconds a network has at
  most one address per second.
\<close>

theorem same_time_hides_address:
  assumes "bidimap B" and "unix_nano (rq_time r') = unix_nano (rq_time r)"
    and "ip_string (parse_ip (rq_source r')) \<noteq> ip_string (parse_ip (rq_source r))"
  shows "bm_get_key B (nd_ip_map (nd_handle_request T B now' r' (nd_handle_request T B now r nd)))
    (ip_string (parse_ip (rq_source r))) = None"
proof -
  let ?k = "unix_nano (rq_time r)" and ?s = "ip_string (parse_ip (rq_source r))"
  let ?m = "nd_ip_map (nd_handle_request T B now r nd)"
  obtain m0 where m: "?m = bm_put B m0 ?k ?s" using nd_ip_map_handle by metis
  define m1 where "m1 = (case bm_get_key B ?m (ip_string (parse_ip (rq_source r'))) of
      Some k \<Rightarrow> bm_remove B ?m k | None \<Rightarrow> ?m)"
  have m1: "m1 = ?m \<or> (\<exists>k. m1 = bm_remove B ?m k)" by (auto simp: m1_def split: option.splits)
  have m': "nd_ip_map (nd_handle_request T B now' r' (nd_handle_request T B now r nd)) =
      bm_put B m1 ?k (ip_string (parse_ip (rq_source r')))"
    unfolding m1_def nd_ip_map_handle [of T B now' r'] assms(2) ..
  have r: "bm_get B ?m j \<noteq> Some ?s" if "j \<noteq> ?k" for j
    using that unfolding m bidimap.bget_put [OF assms(1)] by simp
  have r1: "bm_get B m1 j \<noteq> Some ?s" if "j \<noteq> ?k" for j
    using m1 r [OF that] by (auto simp: bidimap.bget_remove [OF assms(1)] split: if_splits)
  have no: "bm_get B (bm_put B m1 ?k (ip_string (parse_ip (rq_source r')))) j \<noteq> Some ?s" for j
    unfolding bidimap.bget_put [OF assms(1)] using r1 [of j] assms(3) by simp
  show ?thesis
  proof (rule ccontr)
    assume "\<not> ?thesis"
    then obtain j where "bm_get_key B (bm_put B m1 ?k (ip_string (parse_ip (rq_source r')))) ?s = Some j"
      unfolding m' by blast
    from bidimap.bget_key_Some [OF assms(1) this] no show False by blast
  qed
qed

section \<open>Witnesses\<close>

definition wit_net_request :: "string \<Rightarrow> request" where
  "wit_net_request source = \<lparr>rq_url = ''/'', rq_host = [], rq_agent = [], rq_source = source, rq_method = ''GET'',
     rq_seq = 0, rq_timestamp = 5, rq_time = 5 * second, rq_asn = None, rq_is_app = False\<rparr>"

lemma network_counts_witness:
  "nd_total (nd_run rbt_api rbt_bidi [NdRequest (0, 0, 0) (wit_net_request []), NdRequest (0, 0, 0) (wit_net_request [])]
     (new_network_data rbt_api rbt_bidi 0 0 None wit_cfg)) = 2"
proof -
  have "i64 2 = 2" by (simp add: i64_def)
  then show ?thesis
    using network_counts [OF rbt_win.window_store_axioms,
        of rbt_bidi "[NdRequest (0, 0, 0) (wit_net_request []), NdRequest (0, 0, 0) (wit_net_request [])]" 0 0 None wit_cfg]
    by simp
qed

definition wit_net_asn :: asn where
  "wit_net_asn = \<lparr>asn_network = None, asn_cidr = ''10.0.0.0/8'', asn_number = 7, asn_org = ''Example''\<rparr>"

definition wit_nd :: "((int, int) RBT.rbt, (int, string) RBT.rbt) network_data" where
  "wit_nd = (new_network_data rbt_api rbt_bidi 0 0 None wit_cfg)
     \<lparr>nd_asn := Some wit_net_asn, nd_total := 400, nd_app := 400, nd_ratio := Fin 1\<rparr>"

lemma update_blocks_iff_witness:
  "\<exists>u. update_and_block rbt_api rbt_bidi wit_cfg (\<lambda>_. \<lparr>nc_total = 0, nc_app = 0, nc_other = 0, nc_ips = 0\<rparr>) (\<lambda>_. 0) (\<lambda>_. 0)
         (new_networks\<lparr>nw_data := [(''10.0.0.0/8'', wit_nd)]\<rparr>) = Inr u \<and>
       (\<exists>m \<in> set (ur_asns u). map_option asn_number (st_asn m) = Some 7) \<and> ur_check u"
proof -
  let ?ck = "\<lambda>_ :: string. \<lparr>nc_total = 0, nc_app = 0, nc_other = 0, nc_ips = 0\<rparr>"
  let ?n = "new_networks\<lparr>nw_data := [(''10.0.0.0/8'', wit_nd)]\<rparr>"
  have empty: "RBT.entries (RBT.empty :: (int, 'v) RBT.rbt) = []"
    using RBT.map_of_entries [of "RBT.empty :: (int, 'v) RBT.rbt"] by (simp del: RBT.map_of_entries)
  have keep: "nd_expire rbt_api rbt_bidi (?ck []) wit_nd = wit_nd"
    by (simp add: nd_expire_def nd_expire_stats_def nd_expire_ips_def wit_nd_def new_network_data_def rbt_api_def
        rbt_bidi_def empty)
  have asn: "nd_asn wit_nd = Some wit_net_asn" by (simp add: wit_nd_def)
  have "\<exists>u. update_and_block rbt_api rbt_bidi wit_cfg ?ck (\<lambda>_. 0) (\<lambda>_. 0) ?n = Inr u \<and>
      nw_data (ur_networks u) = [(''10.0.0.0/8'', wit_nd)]"
    using keep asn by (simp add: update_and_block_def Let_def)
  then obtain u where u: "update_and_block rbt_api rbt_bidi wit_cfg ?ck (\<lambda>_. 0) (\<lambda>_. 0) ?n = Inr u"
    "nw_data (ur_networks u) = [(''10.0.0.0/8'', wit_nd)]" by blast
  have "\<exists>m \<in> set (ur_asns u). map_option asn_number (st_asn m) = Some 7"
    using conjunct1 [OF update_blocks_iff [OF u(1), of 7]] u(2) asn
    by (simp add: wit_net_asn_def wit_nd_def new_network_data_def wit_cfg_def i64_def f64_of_int_def)
  with u update_blocks_iff [OF u(1), of 7] show ?thesis by auto
qed

lemma same_time_hides_address_witness:
  "bm_get_key rbt_bidi (nd_ip_map (nd_handle_request rbt_api rbt_bidi (0, 0, 0) (wit_net_request ''10.1.2.4'')
     (nd_handle_request rbt_api rbt_bidi (0, 0, 0) (wit_net_request ''10.1.2.3'')
        (new_network_data rbt_api rbt_bidi 0 0 None wit_cfg)))) ''10.1.2.3'' = None"
proof -
  have ips: "parse_ip ''10.1.2.3'' = v4_prefix @ [10, 1, 2, 3]" "parse_ip ''10.1.2.4'' = v4_prefix @ [10, 1, 2, 4]"
    by (simp_all add: parse_ip_def parse_cidr_eval)
  have str: "ip_string (v4_prefix @ [10, 1, 2, 3]) = ''10.1.2.3''" "ip_string (v4_prefix @ [10, 1, 2, 4]) = ''10.1.2.4''"
    by code_simp+
  have b: "bidimap (rbt_bidi :: (int, string, (int, string) RBT.rbt) bidimap_api)" by (rule rbt_bi.bidimap_axioms)
  show ?thesis
    using same_time_hides_address [OF b, of "wit_net_request ''10.1.2.4''" "wit_net_request ''10.1.2.3''" rbt_api]
    by (simp add: wit_net_request_def ips str)
qed


lemma networks_well_formed_witness:
  "\<exists>n. networks_handle_request rbt_api rbt_bidi wit_cfg (0, 0) (0, 0, 0)
      ((wit_net_request ''10.1.2.3'')\<lparr>rq_asn := Some wit_net_asn\<rparr>) new_networks = Inr n \<and> distinct (map fst (nw_data n))"
proof -
  let ?r = "(wit_net_request ''10.1.2.3'')\<lparr>rq_asn := Some wit_net_asn\<rparr>"
  obtain n where n: "networks_handle_request rbt_api rbt_bidi wit_cfg (0, 0) (0, 0, 0) ?r new_networks = Inr n"
    by (simp add: networks_handle_request_def Let_def)
  then have "(networks_step rbt_api rbt_bidi wit_cfg)\<^sup>*\<^sup>* new_networks n"
    using networks_step.request [OF n] by blast
  from networks_well_formed [OF this] n show ?thesis by blast
qed

end
