(* ===== verification/NetworksApi.thy ===== *)
theory NetworksApi
  imports Networks Api
begin

text \<open>The HTTP handlers of \<^verbatim>\<open>plugins/network.go\<close>, in the manner of the theory \<open>Api\<close>.\<close>

section \<open>Handlers\<close>

definition api_get_blocked_networks :: "network_block_message sorter \<Rightarrow> 'db kvstore_api \<Rightarrow> block_json \<Rightarrow> time \<Rightarrow> 'db
    \<Rightarrow> network_block_message list reply" where
  "api_get_blocked_networks srt K J now db =
     JSON (srt (\<lambda>a b. st_total a > st_total b) (blocked_networks K J now db))"

definition api_get_blocked_asns :: "block_message sorter \<Rightarrow> 'db kvstore_api \<Rightarrow> block_json \<Rightarrow> time \<Rightarrow> 'db
    \<Rightarrow> block_message list reply" where
  "api_get_blocked_asns srt K J now db = JSON (srt (\<lambda>a b. st_total a > st_total b) (blocked_asns K J now db))"

definition api_get_networks :: "('m, 'b) networks \<Rightarrow> ('m, 'b) network_data list reply" where
  "api_get_networks n = JSON (networks_all n)"

definition api_get_network :: "string \<Rightarrow> string \<Rightarrow> ('m, 'b) networks \<Rightarrow> ('m, 'b) network_data reply" where
  "api_get_network ip bits n =
     (case parse_cidr (ip @ ''/'' @ bits) of
        None \<Rightarrow> Abort 406
      | Some network \<Rightarrow>
          (case networks_network_stats network n of None \<Rightarrow> Abort 404 | Some nw \<Rightarrow> JSON nw))"

definition api_get_asn_stats :: "string \<Rightarrow> ('m, 'b) networks \<Rightarrow> stats reply" where
  "api_get_asn_stats asn n =
     (case parse_int64 asn of
        None \<Rightarrow> Abort 406
      | Some asn \<Rightarrow> (case networks_asn_stats asn n of None \<Rightarrow> Abort 404 | Some st \<Rightarrow> JSON st))"

section \<open>What the handlers answer\<close>

text \<open>A network whose request has been handled is found under its notation, whatever the notation asked with.\<close>

lemma handled_network_found:
  assumes "networks_handle_request T B cfg new now r n = Inr n'" and "rq_asn r = Some a"
    and "asn_network a = Some network" and "parse_cidr (ip @ ''/'' @ bits) = Some network"
  shows "\<exists>nd. api_get_network ip bits n' = JSON nd \<and> nd \<in> set (networks_all n')"
proof -
  have "map_of (nw_data n') (ipnet_string network) \<noteq> None"
    using assms by (auto simp: networks_handle_request_def network_string_def Let_def update_conv' split: option.splits)
  then obtain nd where nd: "map_of (nw_data n') (ipnet_string network) = Some nd" by auto
  then have "nd \<in> set (networks_all n')" by (force simp: networks_all_def dest: map_of_SomeD)
  with nd assms(4) show ?thesis by (simp add: api_get_network_def networks_network_stats_def)
qed

end
