(* ===== verification/Spec2Isabelle.thy ===== *)
theory Spec2Isabelle
  imports Lifecycle Server Dump Forced WebsocketPool LogReplay EndToEnd NetworksApi
begin

text \<open>
  botex, a mitigation tool against bad bots, in Isabelle/HOL. The program receives the requests that web
  servers report, keeps statistics per client address, blocks the addresses, networks and autonomous systems
  whose behaviour is that of a bot, and answers the web servers' question whether to let a request pass.

  \<^bold>\<open>How the parts interact.\<close> \<open>Botex.HandleRequest\<close> (\<^verbatim>\<open>botex.go\<close>) gives each request to \<open>History.Add\<close>
  (\<^verbatim>\<open>history.go\<close>), which finds or makes the \<open>IPData\<close> (\<^verbatim>\<open>ipdata.go\<close>) of its address and adds the request to
  the address's \<open>Requests\<close> (\<^verbatim>\<open>requests.go\<close>): three rolling windows (\<^verbatim>\<open>window.go\<close>), one per user agent
  (\<^verbatim>\<open>mapwindow.go\<close>), and the list of the latest requests (\<^verbatim>\<open>requestwindow.go\<close>). The new statistics travel
  over a channel to \<open>History.update\<close>, which decides with \<open>IPData.ShouldBeBlocked\<close> and the whitelist
  (\<^verbatim>\<open>whitelist.go\<close>) whether to send the address to the block worker of \<^verbatim>\<open>botex.go\<close>. The block worker marks
  the address and enters it into the block list (\<^verbatim>\<open>block.go\<close>), whose entries live in the key/value store
  (\<^verbatim>\<open>store/\<close>). The resolver (\<^verbatim>\<open>resolver.go\<close>) finds hostnames. The networks plugin (\<^verbatim>\<open>plugins/network.go\<close>)
  counts per network and blocks autonomous systems. The web server socket (\<^verbatim>\<open>webserversocket.go\<close>) looks an
  address up in the block list, and lets the holder of a captcha cookie pass. Decisions are counted in
  \<open>StatsWindows\<close> (\<^verbatim>\<open>stats.go\<close>). The HTTP interface (\<^verbatim>\<open>api.go\<close>) lists what the history and the block list hold,
  and sends every message of the channel \<open>WebsocketChan\<close> to the connected web sockets. A log file can be replayed
  into \<open>HandleRequest\<close> (\<^verbatim>\<open>logreplay.go\<close>).

  \<^bold>\<open>Theories and code.\<close>
  \<^item> \<open>Prelude\<close>: Go's 64-bit integers (\<open>i64\<close>), instants and durations of the package \<open>time\<close>, lemmas on
    lists and association lists. \<open>Float64\<close>: \<open>float64\<close> with its rounding. \<open>GoRegexp\<close>: the matcher of the
    fixed patterns, and the pattern of asset URLs (\<^verbatim>\<open>matchers/matchers.go\<close>). \<open>Net\<close>: addresses, networks,
    their printing and parsing. \<open>Encodings\<close>: base 64, query unescaping, splitting. \<open>Aes\<close>: AES and cipher
    block chaining. These are the parts of Go's standard library that the program uses.
  \<^item> \<open>Types\<close>: the records of \<^verbatim>\<open>data/\<close> and \<^verbatim>\<open>config/config.go\<close>. \<open>Codec\<close>: JSON as a parameter, with its
    contract.
  \<^item> \<open>Gods\<close>: the interfaces of the ordered maps of \<^verbatim>\<open>emirpasic/gods\<close>, with the library's red-black trees
    as an instance.
  \<^item> \<open>Windows\<close>, \<open>RequestWindows\<close>, \<open>Requests\<close>, \<open>IPData\<close>, \<open>History\<close>: the statistics of addresses, from
    one window to all addresses. Pointers to \<open>IPData\<close> are indices into a store that only grows.
  \<^item> \<open>StatsWindows\<close>: the statistics of decisions.
  \<^item> \<open>Store\<close>: the key/value store over the transactions of Badger. \<open>Block\<close>: the block list over the
    interface of the store. \<open>Whitelist\<close>: its rules, loading and deciding.
  \<^item> \<open>Resolver\<close>: lookups, cache and retries, the workers a step relation over a multiset of messages.
  \<^item> \<open>Botex\<close>: handling of requests and the workers, as the step relation \<open>botex_step\<close> over the state with
    its channels. \<open>Forced\<close>: which addresses the worker for blocked networks sends on.
  \<^item> \<open>WebserverSocket\<close>: one connection, the decision on one request, the cookie.
  \<^item> \<open>Networks\<close>: the networks plugin, its goroutine the step relation \<open>networks_step\<close>. \<open>NetworksApi\<close>: its HTTP
    handlers.
  \<^item> \<open>Api\<close>: the handlers of \<^verbatim>\<open>api.go\<close>, each a function from the state to a reply or a panic. \<open>WebsocketPool\<close>: its
    web sockets, the connections, their handlers and the goroutine that writes to them as the step relation
    \<open>pool_step\<close>.
  \<^item> \<open>Startup\<close>: the state that \<open>New\<close> of \<^verbatim>\<open>botex.go\<close> makes, and the plugin of \<^verbatim>\<open>plugins/ipmeta.go\<close>.
  \<^item> \<open>Options\<close>: the options of \<^verbatim>\<open>cmd/botex/main.go\<close> with their defaults, and what \<open>New\<close> starts because of them.
  \<^item> \<open>EndToEnd\<close>: an offender's way from the statistics over the block list to the answer of the socket.
  \<^item> \<open>Channels\<close>: goroutines with bounded channels and a mutex in general: networks, their steps, and the locale
    \<open>layered_net\<close>, whose contract excludes deadlocks. \<open>Goroutines\<close>: the goroutines, channels and the mutex of the
    history as such a network, and the closing of channels at the end of the program.
  \<^item> \<open>Lifecycle\<close>: the steps of \<open>New\<close> with their effects, where each can fail and what is left then. \<open>Server\<close>: the
    routes of the HTTP interface and of the plugins, and the accepting of connections.
  \<^item> \<open>Dump\<close>: the command \<^verbatim>\<open>cmd/badger\<close>.
  \<^item> \<open>LogReplay\<close>: the requests made of the lines of a log file, their time stamps, anonymizing.

  \<^bold>\<open>What the lemmas show.\<close> For the counting components, a relation between the state and the events it counts
  (\<open>win_rep\<close>, \<open>mw_rep\<close>, \<open>sw_rep\<close>, \<open>nd_rep\<close>) is kept by every operation, so the counts of any run
  are the numbers of events that were added and have not expired. For the block list and the store, each
  operation is characterised by what can be read after it. For the deciding functions (\<open>should_be_blocked\<close>,
  \<open>is_whitelisted\<close>, \<open>wss_decide\<close>, the update of the networks plugin) an equivalence states the exact condition.
  For the goroutines, invariants hold in every reachable state, and for the web sockets every
  message can be delivered from every reachable state (\<open>messages_get_delivered\<close>). The network of all goroutines
  settles from every reachable state, in every order of steps (\<open>goroutines_settle\<close>): ranks of channels and levels of
  goroutines exclude circular waiting, and the multiset of the ranks of what is left to do decreases. Errors and panics are values, and what causes
  a panic is stated as an equivalence.

  \<^bold>\<open>Interfaces.\<close> A locale per contract: \<open>treemap\<close> and \<open>bidimap\<close> (Gods), \<open>badger\<close> and \<open>kvstore\<close> (Store),
  \<open>json_codec\<close> (Codec) and \<open>block_codec\<close> (Block), \<open>window_store\<close> (Windows), \<open>block_cipher\<close> (Aes), \<open>slice_sort\<close> and \<open>map_range\<close>
  (Api), \<open>log_parser\<close> (LogReplay), \<open>layered_net\<close> (Channels). Each is
  interpreted on the definitions that provide it: \<open>kvstore\<close> on the methods of \<open>BadgerDB\<close>, \<open>block_cipher\<close>
  on AES, the ordered maps on red-black trees, \<open>slice_sort\<close> on insertion sort.

  \<^bold>\<open>Parameters.\<close> Code that is not in the repository is an argument: the ordered maps, Badger, JSON, the compiler
  of regular expressions for the rules of the whitelist and its TOML parser, DNS, NATS, the ASN and GeoIP
  databases, the plugins as \<open>IPData\<close> sees them, \<open>sort.Slice\<close>, the order of a loop over a map in \<open>Api\<close>, the parser
  of log lines, and the validation of the host in a URL. Every reading of the clock is an argument, too.

  \<^bold>\<open>Bounds.\<close> Integers are \<open>int\<close>, with \<open>i64\<close> written where an operation can leave the 64 bits. The functions
  are total; the few with fuel are the parser of IPv6 addresses and its printer, whose fuel is 8, the number of
  groups of an address, and every step of which consumes a group. The retries of the resolver are proved to
  end by a measure. Floating point leaves out overflow, subnormal numbers and the sign of zero, which counts
  and their ratios do not reach.

  \<^bold>\<open>Assumptions.\<close> Operations that run under a mutex are atomic. The network of goroutines leaves out
  what the messages say: whether a job sends a message is open there. Publishing to NATS does not block. Removing the key an iterator of an ordered
  map stands at is taken to be safe, as the code does it; the iterator is the list of pairs at its start.
  \<open>strings.TrimSpace\<close> trims ASCII space. The order of a Go map is the order of the list that stands for it, and
  the theorems hold for every such list.

  \<^bold>\<open>Not modelled.\<close> Logging; opening and closing files, databases and sockets; the parsing of the command line and
  the signals under \<^verbatim>\<open>cmd/\<close>; the workers that only print statistics; the garbage collection of Badger; \<^verbatim>\<open>data/blocker.go\<close>, an interface without code.
\<close>

end
